theory Spec2Isabelle
  imports Complex_Main "HOL-Library.AList" "HOL-Library.Code_Target_Numeral"
begin

section \<open>JavaScript values used by the server\<close>

text \<open>
  The server (server.js) keeps one hash per room in Redis and mutates it from socket.io
  event handlers. It stores every number as the text \<open>String\<close> gives and reads it back
  with \<open>Number\<close>, so the numbers are modelled by decimal values: a finite number is a
  rational with a finite decimal expansion, which is what a JSON number literal and the
  text \<open>String\<close> prints denote. \<open>Num x\<close> stands for the double nearest to \<open>x\<close>, and a
  double is represented by the decimal that \<open>String\<close> prints for it; on these decimals
  \<open>String_num\<close> and \<open>Number_str\<close> below are \<open>String\<close> and \<open>Number\<close> of ECMAScript. The
  model keeps the digits of a longer literal instead of rounding it to a double, and it
  has no overflow to Infinity. The server only prints numbers, reads them back, tests
  them against 0, and adds or subtracts 1 on the member count, which is exact on the
  integers below \<open>2 ^ 53\<close>. Negative zero is not told apart from zero: the server cannot
  observe the difference (\<open>||\<close> is falsy on both, \<open>String\<close> prints both as 0). Strings
  are lists of 8-bit code units.
\<close>

subsection \<open>Finite decimal numbers\<close>

typedef decimal = "{q :: rat. \<exists>k :: nat. q * 10 ^ k \<in> \<int>}"
  morphisms rat_of_decimal decimal_of_rat
proof
  show "0 \<in> {q :: rat. \<exists>k :: nat. q * 10 ^ k \<in> \<int>}" by simp
qed

setup_lifting type_definition_decimal

instantiation decimal :: "{ring_1, linorder, linordered_ring, linordered_idom, numeral, equal}"
begin

lift_definition zero_decimal :: decimal is 0
  by simp

lift_definition one_decimal :: decimal is 1
  by (rule exI [of _ 0]) simp

lift_definition plus_decimal :: "decimal \<Rightarrow> decimal \<Rightarrow> decimal" is "(+)"
proof -
  fix a b :: rat
  assume "\<exists>k :: nat. a * 10 ^ k \<in> \<int>" and "\<exists>k :: nat. b * 10 ^ k \<in> \<int>"
  then obtain i j :: nat where "a * 10 ^ i \<in> \<int>" "b * 10 ^ j \<in> \<int>" by blast
  then have "a * 10 ^ i * 10 ^ j + b * 10 ^ j * 10 ^ i \<in> \<int>" by simp
  then have "(a + b) * 10 ^ (i + j) \<in> \<int>" by (simp add: algebra_simps power_add)
  then show "\<exists>k :: nat. (a + b) * 10 ^ k \<in> \<int>" by blast
qed

lift_definition times_decimal :: "decimal \<Rightarrow> decimal \<Rightarrow> decimal" is "(*)"
proof -
  fix a b :: rat
  assume "\<exists>k :: nat. a * 10 ^ k \<in> \<int>" and "\<exists>k :: nat. b * 10 ^ k \<in> \<int>"
  then obtain i j :: nat where "a * 10 ^ i \<in> \<int>" "b * 10 ^ j \<in> \<int>" by blast
  then have "(a * 10 ^ i) * (b * 10 ^ j) \<in> \<int>" by simp
  then have "(a * b) * 10 ^ (i + j) \<in> \<int>" by (simp add: algebra_simps power_add)
  then show "\<exists>k :: nat. (a * b) * 10 ^ k \<in> \<int>" by blast
qed

lift_definition uminus_decimal :: "decimal \<Rightarrow> decimal" is uminus
  by simp

lift_definition minus_decimal :: "decimal \<Rightarrow> decimal \<Rightarrow> decimal" is "(-)"
proof -
  fix a b :: rat
  assume "\<exists>k :: nat. a * 10 ^ k \<in> \<int>" and "\<exists>k :: nat. b * 10 ^ k \<in> \<int>"
  then obtain i j :: nat where "a * 10 ^ i \<in> \<int>" "b * 10 ^ j \<in> \<int>" by blast
  then have "a * 10 ^ i * 10 ^ j - b * 10 ^ j * 10 ^ i \<in> \<int>" by simp
  then have "(a - b) * 10 ^ (i + j) \<in> \<int>" by (simp add: algebra_simps power_add)
  then show "\<exists>k :: nat. (a - b) * 10 ^ k \<in> \<int>" by blast
qed

lift_definition abs_decimal :: "decimal \<Rightarrow> decimal" is abs
proof -
  fix a :: rat
  assume "\<exists>k :: nat. a * 10 ^ k \<in> \<int>"
  then obtain i :: nat where "a * 10 ^ i \<in> \<int>" by blast
  then have "\<bar>a * 10 ^ i\<bar> \<in> \<int>" by simp
  then have "\<bar>a\<bar> * 10 ^ i \<in> \<int>" by (simp add: abs_mult)
  then show "\<exists>k :: nat. \<bar>a\<bar> * 10 ^ k \<in> \<int>" by blast
qed

lift_definition sgn_decimal :: "decimal \<Rightarrow> decimal" is sgn
proof -
  fix a :: rat
  have "sgn a * 10 ^ 0 \<in> \<int>" by (simp add: sgn_if)
  then show "\<exists>k :: nat. sgn a * 10 ^ k \<in> \<int>" by blast
qed

lift_definition equal_decimal :: "decimal \<Rightarrow> decimal \<Rightarrow> bool" is "(=) :: rat \<Rightarrow> rat \<Rightarrow> bool" .

lift_definition less_eq_decimal :: "decimal \<Rightarrow> decimal \<Rightarrow> bool" is "(\<le>)" .

lift_definition less_decimal :: "decimal \<Rightarrow> decimal \<Rightarrow> bool" is "(<)" .

instance
  by standard (transfer; fastforce simp add: field_simps intro: mult_left_mono mult_right_mono)+

end

text \<open>Whether a number is an integer, its floor, and \<open>m\<close> times ten to the power \<open>e\<close>.\<close>

lift_definition is_integer :: "decimal \<Rightarrow> bool" is "\<lambda>q. rat_of_int \<lfloor>q\<rfloor> = q" .

lift_definition floor_decimal :: "decimal \<Rightarrow> int" is floor .

lift_definition scale10 :: "int \<Rightarrow> int \<Rightarrow> decimal" is "\<lambda>m e. of_int m * 10 powi e"
proof -
  fix m e :: int
  show "\<exists>k :: nat. (of_int m :: rat) * 10 powi e * 10 ^ k \<in> \<int>"
  proof (cases "0 \<le> e")
    case True
    then have "(of_int m :: rat) * 10 powi e * 10 ^ 0 \<in> \<int>" by (simp add: power_int_def)
    then show ?thesis by blast
  next
    case False
    then have "(10 :: rat) powi e * 10 ^ nat (- e) = (inverse 10 * 10) ^ nat (- e)"
      by (simp only: power_int_def power_mult_distrib if_False)
    then have "(of_int m :: rat) * 10 powi e * 10 ^ nat (- e) = of_int m"
      by (simp add: mult.assoc)
    then have "(of_int m :: rat) * 10 powi e * 10 ^ nat (- e) \<in> \<int>"
      by (simp only: Ints_of_int)
    then show ?thesis by blast
  qed
qed

text \<open>The number of decimal places: how often to multiply by ten to reach an integer.\<close>

function places :: "decimal \<Rightarrow> nat" where
  "places d = (if is_integer d then 0 else Suc (places (d * 10)))"
  by auto
termination
proof (relation "measure (\<lambda>d. LEAST k. rat_of_decimal d * 10 ^ k \<in> \<int>)")
  show "wf (measure (\<lambda>d. LEAST k. rat_of_decimal d * 10 ^ k \<in> \<int>))" by simp
next
  fix d :: decimal
  assume n: "\<not> is_integer d"
  have num: "rat_of_decimal (numeral n) = numeral n" for n
    by (induct n) (simp_all only: numeral.simps one_decimal.rep_eq plus_decimal.rep_eq)
  have ten: "rat_of_decimal 10 = 10" by (rule num)
  let ?P = "\<lambda>k. rat_of_decimal d * 10 ^ k \<in> \<int>"
  have ex: "\<exists>k. ?P k" using rat_of_decimal [of d] by simp
  then obtain k where k: "?P k" by blast
  have n0: "\<not> ?P 0"
  proof
    assume "?P 0"
    then obtain z where "rat_of_decimal d = of_int z" by (auto elim: Ints_cases)
    then have "rat_of_int \<lfloor>rat_of_decimal d\<rfloor> = rat_of_decimal d" by simp
    then show False using n by (simp add: is_integer.rep_eq)
  qed
  have "(LEAST k. ?P k) = Suc (LEAST m. ?P (Suc m))" using k n0 by (rule Least_Suc)
  moreover have "(LEAST k. rat_of_decimal (d * 10) * 10 ^ k \<in> \<int>) = (LEAST m. ?P (Suc m))"
    by (simp add: times_decimal.rep_eq ten mult.assoc)
  ultimately show "(d * 10, d) \<in> measure (\<lambda>d. LEAST k. rat_of_decimal d * 10 ^ k \<in> \<int>)"
    by simp
qed

subsection \<open>Numbers and the operators the server applies to them\<close>

datatype number = Num decimal | NaN | PosInf | NegInf

datatype jsval = JUndefined | JNull | JBool bool | JNumber number | JString string

text \<open>\<open>x || d\<close> on numbers: 0 and NaN are falsy.\<close>

definition num_or :: "number \<Rightarrow> number \<Rightarrow> number" where
  "num_or x d = (if x = Num 0 \<or> x = NaN then d else x)"

fun num_neg :: "number \<Rightarrow> number" where
  "num_neg (Num a) = Num (- a)"
| "num_neg NaN = NaN"
| "num_neg PosInf = NegInf"
| "num_neg NegInf = PosInf"

fun num_add :: "number \<Rightarrow> number \<Rightarrow> number" where
  "num_add (Num a) (Num b) = Num (a + b)"
| "num_add NaN y = NaN"
| "num_add x NaN = NaN"
| "num_add PosInf NegInf = NaN"
| "num_add NegInf PosInf = NaN"
| "num_add PosInf y = PosInf"
| "num_add x PosInf = PosInf"
| "num_add NegInf y = NegInf"
| "num_add x NegInf = NegInf"

fun num_sub :: "number \<Rightarrow> number \<Rightarrow> number" where
  "num_sub (Num a) (Num b) = Num (a - b)"
| "num_sub x y = num_add x (num_neg y)"

fun Math_max :: "number \<Rightarrow> number \<Rightarrow> number" where
  "Math_max (Num a) (Num b) = Num (max a b)"
| "Math_max NaN y = NaN"
| "Math_max x NaN = NaN"
| "Math_max PosInf y = PosInf"
| "Math_max x PosInf = PosInf"
| "Math_max NegInf y = y"
| "Math_max x NegInf = x"

text \<open>\<open>x || d\<close> on a possibly undefined string: undefined and the empty string are falsy.\<close>

fun str_or :: "string option \<Rightarrow> string \<Rightarrow> string" where
  "str_or None d = d"
| "str_or (Some s) d = (if s = [] then d else s)"

subsection \<open>String(x)\<close>

text \<open>The decimal digits of a natural number, and the number of zeros it ends in.\<close>

fun dec :: "nat \<Rightarrow> string" where
  "dec n = (if n < 10 then [char_of (48 + n)] else dec (n div 10) @ [char_of (48 + n mod 10)])"

fun trailing_zeros :: "nat \<Rightarrow> nat" where
  "trailing_zeros m = (if m = 0 \<or> m mod 10 \<noteq> 0 then 0 else Suc (trailing_zeros (m div 10)))"

text \<open>
  A decimal literal: integer digits, fraction digits after a point when there are any,
  and an exponent part \<open>e+n\<close> or \<open>e-n\<close> when one is given.
\<close>

definition exponent_text :: "int option \<Rightarrow> string" where
  "exponent_text ex =
     (case ex of
        None \<Rightarrow> []
      | Some e \<Rightarrow> CHR ''e'' # (if e < 0 then CHR ''-'' else CHR ''+'') # dec (nat \<bar>e\<bar>))"

definition literal :: "string \<Rightarrow> string \<Rightarrow> int option \<Rightarrow> string" where
  "literal ip fp ex = ip @ (if fp = [] then [] else CHR ''.'' # fp) @ exponent_text ex"

text \<open>
  \<open>Number::toString\<close> of ECMAScript for a positive number \<open>x\<close>. With \<open>ds\<close> the \<open>k\<close>
  significant digits of \<open>x\<close> (no zero at the end) and \<open>n\<close> such that
  \<open>x = 0.ds * 10 ^ n\<close>: the digits followed by zeros when \<open>k \<le> n \<le> 21\<close>, the digits with
  a point after the first \<open>n\<close> when \<open>0 < n \<le> 21\<close>, \<open>0.\<close> and zeros before the digits when
  \<open>-6 < n \<le> 0\<close>, and otherwise the exponent form with one digit before the point.
\<close>

definition String_pos :: "decimal \<Rightarrow> string" where
  "String_pos x =
     (let p = places x;
          m = nat (floor_decimal (x * 10 ^ p));
          z = trailing_zeros m;
          ds = dec (m div 10 ^ z);
          k = int (length ds);
          n = k + int z - int p
      in if k \<le> n \<and> n \<le> 21 then literal (ds @ replicate (nat (n - k)) CHR ''0'') [] None
         else if 0 < n \<and> n \<le> 21 then literal (take (nat n) ds) (drop (nat n) ds) None
         else if - 6 < n \<and> n \<le> 0 then literal ''0'' (replicate (nat (- n)) CHR ''0'' @ ds) None
         else literal [hd ds] (tl ds) (Some (n - 1)))"

text \<open>\<open>String(x)\<close>.\<close>

fun String_num :: "number \<Rightarrow> string" where
  "String_num NaN = ''NaN''"
| "String_num PosInf = ''Infinity''"
| "String_num NegInf = ''-Infinity''"
| "String_num (Num x) =
     (if x = 0 then ''0'' else if x < 0 then CHR ''-'' # String_pos (- x) else String_pos x)"

subsection \<open>Number(s)\<close>

definition is_digit :: "char \<Rightarrow> bool" where
  "is_digit c = (48 \<le> (of_char c :: nat) \<and> (of_char c :: nat) \<le> 57)"

definition digits_nat :: "string \<Rightarrow> nat" where
  "digits_nat s = foldl (\<lambda>a c. 10 * a + ((of_char c :: nat) - 48)) 0 s"

text \<open>The value of a hexadecimal digit; digits of a smaller radix are those below it.\<close>

definition hex_val :: "char \<Rightarrow> nat option" where
  "hex_val c =
     (let n = (of_char c :: nat) in
      if 48 \<le> n \<and> n \<le> 57 then Some (n - 48)
      else if 97 \<le> n \<and> n \<le> 102 then Some (n - 87)
      else if 65 \<le> n \<and> n \<le> 70 then Some (n - 55)
      else None)"

fun radix_digits :: "nat \<Rightarrow> nat \<Rightarrow> string \<Rightarrow> nat option" where
  "radix_digits b acc [] = Some acc"
| "radix_digits b acc (c # cs) =
     (case hex_val c of
        None \<Rightarrow> None
      | Some d \<Rightarrow> if d < b then radix_digits b (b * acc + d) cs else None)"

text \<open>The digits after \<open>0x\<close>, \<open>0o\<close> or \<open>0b\<close>: at least one, all of that radix.\<close>

definition NonDecimalIntegerLiteral :: "nat \<Rightarrow> string \<Rightarrow> number" where
  "NonDecimalIntegerLiteral b ds =
     (if ds = [] then NaN
      else case radix_digits b 0 ds of None \<Rightarrow> NaN | Some n \<Rightarrow> Num (of_nat n))"

text \<open>
  \<open>StrWhiteSpaceChar\<close>: white space and line terminators, of which tab, line feed,
  vertical tab, form feed, carriage return, space and no-break space are 8-bit code
  units. \<open>trim\<close> removes them from both ends.
\<close>

definition StrWhiteSpaceChar :: "char \<Rightarrow> bool" where
  "StrWhiteSpaceChar c =
     (c = CHR 0x09 \<or> c = CHR 0x0A \<or> c = CHR 0x0B \<or> c = CHR 0x0C \<or> c = CHR 0x0D \<or>
      c = CHR 0x20 \<or> c = CHR 0xA0)"

definition trim :: "string \<Rightarrow> string" where
  "trim s = rev (dropWhile StrWhiteSpaceChar (rev (dropWhile StrWhiteSpaceChar s)))"

text \<open>The digits after \<open>e\<close> or \<open>E\<close>, with an optional sign.\<close>

definition SignedInteger :: "string \<Rightarrow> int option" where
  "SignedInteger s =
     (case s of
        [] \<Rightarrow> None
      | c # cs \<Rightarrow>
          if c = CHR ''-'' then
            (if cs \<noteq> [] \<and> list_all is_digit cs then Some (- int (digits_nat cs)) else None)
          else if c = CHR ''+'' then
            (if cs \<noteq> [] \<and> list_all is_digit cs then Some (int (digits_nat cs)) else None)
          else if list_all is_digit s then Some (int (digits_nat s))
          else None)"

text \<open>
  \<open>StrUnsignedDecimalLiteral\<close>: \<open>Infinity\<close>, or digits with an optional fraction and an
  optional exponent, at least one digit before or after the point. Anything else is NaN.
\<close>

definition StrUnsignedDecimalLiteral :: "string \<Rightarrow> number" where
  "StrUnsignedDecimalLiteral s =
     (if s = ''Infinity'' then PosInf
      else
        (let ip = takeWhile is_digit s;
             r = dropWhile is_digit s;
             fp = (case r of [] \<Rightarrow> [] | c # cs \<Rightarrow> if c = CHR ''.'' then takeWhile is_digit cs else []);
             r' = (case r of [] \<Rightarrow> [] | c # cs \<Rightarrow> if c = CHR ''.'' then dropWhile is_digit cs else r)
         in if ip = [] \<and> fp = [] then NaN
            else
              (case (case r' of
                       [] \<Rightarrow> Some 0
                     | c # cs \<Rightarrow> if c = CHR ''e'' \<or> c = CHR ''E'' then SignedInteger cs else None) of
                 None \<Rightarrow> NaN
               | Some e \<Rightarrow> Num (scale10 (int (digits_nat (ip @ fp))) (e - int (length fp))))))"

text \<open>
  \<open>Number(s)\<close> on a string, \<open>StringToNumber\<close> of ECMAScript: surrounding white space is
  dropped, the empty string is 0, \<open>0x\<close>, \<open>0o\<close> and \<open>0b\<close> start an unsigned integer of
  that radix, and a decimal literal may carry a sign.
\<close>

definition Number_str :: "string \<Rightarrow> number" where
  "Number_str s =
     (case trim s of
        [] \<Rightarrow> Num 0
      | c # cs \<Rightarrow>
          if c = CHR ''0'' \<and> cs \<noteq> [] \<and> (hd cs = CHR ''x'' \<or> hd cs = CHR ''X'') then
            NonDecimalIntegerLiteral 16 (tl cs)
          else if c = CHR ''0'' \<and> cs \<noteq> [] \<and> (hd cs = CHR ''o'' \<or> hd cs = CHR ''O'') then
            NonDecimalIntegerLiteral 8 (tl cs)
          else if c = CHR ''0'' \<and> cs \<noteq> [] \<and> (hd cs = CHR ''b'' \<or> hd cs = CHR ''B'') then
            NonDecimalIntegerLiteral 2 (tl cs)
          else if c = CHR ''-'' then num_neg (StrUnsignedDecimalLiteral cs)
          else if c = CHR ''+'' then StrUnsignedDecimalLiteral cs
          else StrUnsignedDecimalLiteral (c # cs))"

subsection \<open>JSON.stringify and JSON.parse on arrays of strings\<close>

definition hex_digit :: "nat \<Rightarrow> char" where
  "hex_digit d = (if d < 10 then char_of (48 + d) else char_of (87 + d))"

text \<open>QuoteJSONString, one code unit at a time.\<close>

definition JSON_escape :: "char \<Rightarrow> string" where
  "JSON_escape c =
     (if c = CHR 0x22 then [CHR 0x5C, CHR 0x22]
      else if c = CHR 0x5C then [CHR 0x5C, CHR 0x5C]
      else if c = CHR 0x08 then [CHR 0x5C, CHR ''b'']
      else if c = CHR 0x0C then [CHR 0x5C, CHR ''f'']
      else if c = CHR 0x0A then [CHR 0x5C, CHR ''n'']
      else if c = CHR 0x0D then [CHR 0x5C, CHR ''r'']
      else if c = CHR 0x09 then [CHR 0x5C, CHR ''t'']
      else if (of_char c :: nat) < 32 then
        [CHR 0x5C, CHR ''u'', CHR ''0'', CHR ''0'',
         hex_digit ((of_char c :: nat) div 16), hex_digit ((of_char c :: nat) mod 16)]
      else [c])"

definition JSON_quote :: "string \<Rightarrow> string" where
  "JSON_quote s = CHR 0x22 # concat (map JSON_escape s) @ [CHR 0x22]"

fun JSON_stringify :: "string list \<Rightarrow> string" where
  "JSON_stringify [] = ''[]''"
| "JSON_stringify (x # xs) =
     CHR ''['' # JSON_quote x @ concat (map (\<lambda>y. CHR '','' # JSON_quote y) xs) @ '']''"

text \<open>
  \<open>JSON.parse\<close> restricted to texts that denote an array of strings, as a scanner over
  the code units. \<open>None\<close> is the SyntaxError; it is also the answer for JSON texts of
  any other shape and for \<open>\u\<close> escapes above 0xFF, which the 8-bit strings of the model
  cannot hold (the server only ever parses what \<open>JSON_stringify\<close> wrote).
\<close>

datatype jmode = Start | Open | Str | Sep | Next | Fin

definition json_ws :: "char \<Rightarrow> bool" where
  "json_ws c = (c = CHR 0x20 \<or> c = CHR 0x09 \<or> c = CHR 0x0A \<or> c = CHR 0x0D)"

definition hex4 :: "char \<Rightarrow> char \<Rightarrow> char \<Rightarrow> char \<Rightarrow> char option" where
  "hex4 a b c d =
     (case (hex_val a, hex_val b, hex_val c, hex_val d) of
        (Some x, Some y, Some z, Some w) \<Rightarrow>
          (if x = 0 \<and> y = 0 then Some (char_of (16 * z + w)) else None)
      | _ \<Rightarrow> None)"

definition unescape :: "char \<Rightarrow> char option" where
  "unescape e =
     (if e = CHR 0x22 then Some (CHR 0x22)
      else if e = CHR 0x5C then Some (CHR 0x5C)
      else if e = CHR ''/'' then Some (CHR ''/'')
      else if e = CHR ''b'' then Some (CHR 0x08)
      else if e = CHR ''f'' then Some (CHR 0x0C)
      else if e = CHR ''n'' then Some (CHR 0x0A)
      else if e = CHR ''r'' then Some (CHR 0x0D)
      else if e = CHR ''t'' then Some (CHR 0x09)
      else None)"

fun jscan :: "jmode \<Rightarrow> string list \<Rightarrow> string \<Rightarrow> string \<Rightarrow> string list option" where
  "jscan m acc cur [] = (if m = Fin then Some acc else None)"
| "jscan m acc cur (c # cs) =
     (case m of
        Start \<Rightarrow>
          if json_ws c then jscan Start acc cur cs
          else if c = CHR ''['' then jscan Open acc cur cs
          else None
      | Open \<Rightarrow>
          if json_ws c then jscan Open acc cur cs
          else if c = CHR '']'' then jscan Fin acc cur cs
          else if c = CHR 0x22 then jscan Str acc [] cs
          else None
      | Str \<Rightarrow>
          if c = CHR 0x22 then jscan Sep (acc @ [cur]) [] cs
          else if c = CHR 0x5C then
            (case cs of
               [] \<Rightarrow> None
             | e # r \<Rightarrow>
                 if e = CHR ''u'' then
                   (case r of
                      h1 # h2 # h3 # h4 # r' \<Rightarrow>
                        (case hex4 h1 h2 h3 h4 of
                           None \<Rightarrow> None
                         | Some u \<Rightarrow> jscan Str acc (cur @ [u]) r')
                    | _ \<Rightarrow> None)
                 else
                   (case unescape e of
                      None \<Rightarrow> None
                    | Some u \<Rightarrow> jscan Str acc (cur @ [u]) r))
          else if (of_char c :: nat) < 32 then None
          else jscan Str acc (cur @ [c]) cs
      | Sep \<Rightarrow>
          if json_ws c then jscan Sep acc cur cs
          else if c = CHR '','' then jscan Next acc cur cs
          else if c = CHR '']'' then jscan Fin acc cur cs
          else None
      | Next \<Rightarrow>
          if json_ws c then jscan Next acc cur cs
          else if c = CHR 0x22 then jscan Str acc [] cs
          else None
      | Fin \<Rightarrow>
          if json_ws c then jscan Fin acc cur cs else None)"

definition JSON_parse :: "string \<Rightarrow> string list option" where
  "JSON_parse s = jscan Start [] [] s"

section \<open>The room store\<close>

text \<open>
  Redis holds one hash per key; a key without fields does not exist, so an absent key is
  the empty hash. \<open>expiry\<close> is the time to live set on a key, in seconds.
\<close>

type_synonym hash = "(string \<times> string) list"

record room =
  videoId :: string
  time :: number
  playing :: bool
  membersCount :: number
  moderatorId :: string
  queue :: "string list"

text \<open>\<open>socket.data\<close> of one connection: both fields are undefined until join-room.\<close>

record socket_data =
  data_name :: "string option"
  data_roomId :: "string option"

text \<open>
  The server's state: the Redis hashes and their expiry, the connected sockets with
  their \<open>socket.data\<close>, and the socket.io adapter (for each room the ids of the sockets
  in it, in the order they joined).
\<close>

record server =
  redis :: "string \<Rightarrow> hash"
  expiry :: "string \<Rightarrow> nat option"
  sockets :: "string \<Rightarrow> socket_data option"
  adapter :: "string \<Rightarrow> string list"

datatype exn = SyntaxError

definition ROOM_PREFIX :: string where
  "ROOM_PREFIX = ''room:''"

definition hgetall :: "server \<Rightarrow> string \<Rightarrow> hash" where
  "hgetall st key = redis st key"

definition hset :: "hash \<Rightarrow> hash \<Rightarrow> hash" where
  "hset h payload = fold (\<lambda>(k, v). AList.update k v) payload h"

definition getRoom :: "server \<Rightarrow> string \<Rightarrow> exn + room option" where
  "getRoom st rid =
     (let key = ROOM_PREFIX @ rid;
          data = hgetall st key
      in if data = [] then Inr None
         else
           (case (case map_of data ''queue'' of
                    None \<Rightarrow> Some []
                  | Some q \<Rightarrow> if q = [] then Some [] else JSON_parse q) of
              None \<Rightarrow> Inl SyntaxError
            | Some q \<Rightarrow>
                Inr (Some
                  \<lparr> videoId = str_or (map_of data ''videoId'') [],
                    time = (case map_of data ''time'' of
                              None \<Rightarrow> Num 0
                            | Some t \<Rightarrow> if t = [] then Num 0 else Number_str t),
                    playing = (map_of data ''playing'' = Some ''true''),
                    membersCount = (case map_of data ''membersCount'' of
                                      None \<Rightarrow> Num 0
                                    | Some n \<Rightarrow> if n = [] then Num 0 else Number_str n),
                    moderatorId = str_or (map_of data ''moderatorId'') [],
                    queue = q \<rparr>)))"

definition setRoom :: "server \<Rightarrow> string \<Rightarrow> room \<Rightarrow> server" where
  "setRoom st rid state =
     (let key = ROOM_PREFIX @ rid;
          payload =
            [(''videoId'', str_or (Some (videoId state)) []),
             (''time'', String_num (num_or (time state) (Num 0))),
             (''playing'', if playing state then ''true'' else ''false''),
             (''membersCount'', String_num (num_or (membersCount state) (Num 0))),
             (''moderatorId'', str_or (Some (moderatorId state)) []),
             (''queue'', JSON_stringify (queue state))]
      in st\<lparr> redis := (redis st)(key := hset (redis st key) payload),
              expiry := (expiry st)(key :=
                if membersCount state = Num 0 then Some (60 * 60 * 24) else None) \<rparr>)"

definition ensureRoomExists :: "server \<Rightarrow> string \<Rightarrow> string \<Rightarrow> server \<times> (exn + room)" where
  "ensureRoomExists st rid creatorSocketId =
     (case getRoom st rid of
        Inl e \<Rightarrow> (st, Inl e)
      | Inr (Some existing) \<Rightarrow> (st, Inr existing)
      | Inr None \<Rightarrow>
          (let initial = \<lparr> videoId = [], time = Num 0, playing = False,
                           membersCount = Num 0, moderatorId = creatorSocketId, queue = [] \<rparr>
           in (setRoom st rid initial, Inr initial)))"

text \<open>The YouTube id validator: a string of exactly 11 characters of \<open>[a-zA-Z0-9_-]\<close>.\<close>

definition id_char :: "char \<Rightarrow> bool" where
  "id_char c =
     (let n = (of_char c :: nat) in
      (97 \<le> n \<and> n \<le> 122) \<or> (65 \<le> n \<and> n \<le> 90) \<or> (48 \<le> n \<and> n \<le> 57)
      \<or> c = CHR ''_'' \<or> c = CHR ''-'')"

fun isValidYouTubeId :: "jsval \<Rightarrow> bool" where
  "isValidYouTubeId (JString s) = (length s = 11 \<and> list_all id_char s)"
| "isValidYouTubeId _ = False"

section \<open>Socket events\<close>

text \<open>
  What a handler sends: \<open>io.to(room).emit\<close> reaches the whole room, \<open>socket.emit\<close> only
  the actor, \<open>socket.to(room).emit\<close> the room without the actor.
\<close>

datatype audience = To_room string | To_socket string | To_room_except string string

datatype message =
    Msg_users number
  | Msg_room_state "string option" number bool "string option" "string list"
  | Msg_load_video string
  | Msg_play number
  | Msg_pause number
  | Msg_seek number
  | Msg_chat string string
  | Msg_error string

text \<open>
  The events of one connection. Payload fields that may be missing are options; the
  number of \<open>Join_room\<close> is the value \<open>Math.floor(Math.random() * 9000)\<close> drawn for the
  default name. The time of play, pause and seek is the number the client sent (the
  player's position in seconds, with its fraction). \<open>Connection\<close> is socket.io opening
  the socket, \<open>Disconnect\<close> closing it.
\<close>

datatype event =
    Connection
  | Join_room "string option" "string option" nat
  | Load_video jsval
  | Play "number option"
  | Pause "number option"
  | Seek "number option"
  | Chat "string option"
  | Request_sync
  | Disconnect

record outcome =
  next_state :: server
  emitted :: "(audience \<times> message) list"
  uncaught :: "exn option"

definition finish :: "server \<Rightarrow> (audience \<times> message) list \<Rightarrow> outcome" where
  "finish st out = \<lparr> next_state = st, emitted = out, uncaught = None \<rparr>"

definition throw :: "server \<Rightarrow> exn \<Rightarrow> outcome" where
  "throw st e = \<lparr> next_state = st, emitted = [], uncaught = Some e \<rparr>"

text \<open>\<open>socket.join(room)\<close>: the adapter keeps a set, so joining twice adds nothing.\<close>

definition socket_join :: "server \<Rightarrow> string \<Rightarrow> string \<Rightarrow> server" where
  "socket_join st sid rid =
     st\<lparr> adapter := (adapter st)(rid :=
            if sid \<in> set (adapter st rid) then adapter st rid else adapter st rid @ [sid]) \<rparr>"

text \<open>\<open>Number(time || 0)\<close> on a payload number that may be missing.\<close>

fun Number_or0 :: "number option \<Rightarrow> number" where
  "Number_or0 None = Num 0"
| "Number_or0 (Some t) = num_or t (Num 0)"

definition room_state :: "room \<Rightarrow> message" where
  "room_state r =
     Msg_room_state
       (if videoId r = [] then None else Some (videoId r))
       (num_or (time r) (Num 0))
       (playing r)
       (if moderatorId r = [] then None else Some (moderatorId r))
       (queue r)"

text \<open>
  socket.io opens a socket under a fresh, non-empty id and puts it into the room named by
  its own id. An id that is empty or already connected is not a new connection.
\<close>

definition on_connection :: "server \<Rightarrow> string \<Rightarrow> outcome" where
  "on_connection st sid =
     (if sid = [] \<or> sockets st sid \<noteq> None then finish st []
      else finish
        (socket_join
           (st\<lparr> sockets := (sockets st)(sid \<mapsto> \<lparr> data_name = None, data_roomId = None \<rparr>) \<rparr>)
           sid sid) [])"

definition on_join_room ::
  "server \<Rightarrow> string \<Rightarrow> string option \<Rightarrow> string option \<Rightarrow> nat \<Rightarrow> outcome" where
  "on_join_room st sid roomId_opt name_opt rnd =
     (if str_or roomId_opt [] = [] then
        finish st [(To_socket sid, Msg_error ''roomId required'')]
      else
        (let rid = str_or roomId_opt [];
             st1 = socket_join st sid rid;
             name = (if str_or name_opt [] = [] then ''User'' @ dec (rnd mod 9000 + 1000)
                     else str_or name_opt []);
             st2 = st1\<lparr> sockets := (sockets st1)(sid \<mapsto>
                          \<lparr> data_name = Some name, data_roomId = Some rid \<rparr>) \<rparr>
         in case ensureRoomExists st2 rid sid of
              (st3, Inl e) \<Rightarrow> throw st3 e
            | (st3, Inr room0) \<Rightarrow>
                (let room1 = room0\<lparr> membersCount :=
                                 num_add (num_or (membersCount room0) (Num 0)) (Num 1) \<rparr>;
                     room2 = (if moderatorId room1 = [] then room1\<lparr> moderatorId := sid \<rparr>
                              else room1);
                     st4 = setRoom st3 rid room2
                 in finish st4
                      [(To_room rid, Msg_users (membersCount room2)),
                       (To_socket sid, room_state room2)])))"

definition on_load_video :: "server \<Rightarrow> string \<Rightarrow> socket_data \<Rightarrow> jsval \<Rightarrow> outcome" where
  "on_load_video st sid sd vid =
     (if str_or (data_roomId sd) [] = [] then finish st []
      else
        (let rid = str_or (data_roomId sd) []
         in case getRoom st rid of
              Inl e \<Rightarrow> throw st e
            | Inr None \<Rightarrow> finish st []
            | Inr (Some room0) \<Rightarrow>
                if moderatorId room0 \<noteq> [] \<and> sid \<noteq> moderatorId room0 then
                  finish st [(To_socket sid, Msg_error ''Only moderator can load video'')]
                else if \<not> isValidYouTubeId vid then
                  finish st [(To_socket sid, Msg_error ''Invalid YouTube id'')]
                else
                  (case vid of
                     JString v \<Rightarrow>
                       (let room1 = room0\<lparr> videoId := v, time := Num 0, playing := False \<rparr>;
                            st1 = setRoom st rid room1
                        in finish st1 [(To_room rid, Msg_load_video v)])
                   | _ \<Rightarrow> finish st [])))"

definition on_play :: "server \<Rightarrow> string \<Rightarrow> socket_data \<Rightarrow> number option \<Rightarrow> outcome" where
  "on_play st sid sd t =
     (if str_or (data_roomId sd) [] = [] then finish st []
      else
        (let rid = str_or (data_roomId sd) []
         in case getRoom st rid of
              Inl e \<Rightarrow> throw st e
            | Inr None \<Rightarrow> finish st []
            | Inr (Some room0) \<Rightarrow>
                (let room1 = room0\<lparr> time := Number_or0 t, playing := True \<rparr>;
                     st1 = setRoom st rid room1
                 in finish st1 [(To_room_except rid sid, Msg_play (time room1))])))"

definition on_pause :: "server \<Rightarrow> string \<Rightarrow> socket_data \<Rightarrow> number option \<Rightarrow> outcome" where
  "on_pause st sid sd t =
     (if str_or (data_roomId sd) [] = [] then finish st []
      else
        (let rid = str_or (data_roomId sd) []
         in case getRoom st rid of
              Inl e \<Rightarrow> throw st e
            | Inr None \<Rightarrow> finish st []
            | Inr (Some room0) \<Rightarrow>
                (let room1 = room0\<lparr> time := Number_or0 t, playing := False \<rparr>;
                     st1 = setRoom st rid room1
                 in finish st1 [(To_room_except rid sid, Msg_pause (time room1))])))"

definition on_seek :: "server \<Rightarrow> string \<Rightarrow> socket_data \<Rightarrow> number option \<Rightarrow> outcome" where
  "on_seek st sid sd t =
     (if str_or (data_roomId sd) [] = [] then finish st []
      else
        (let rid = str_or (data_roomId sd) []
         in case getRoom st rid of
              Inl e \<Rightarrow> throw st e
            | Inr None \<Rightarrow> finish st []
            | Inr (Some room0) \<Rightarrow>
                (let room1 = room0\<lparr> time := Number_or0 t \<rparr>;
                     st1 = setRoom st rid room1
                 in finish st1 [(To_room_except rid sid, Msg_seek (time room1))])))"

definition on_chat :: "server \<Rightarrow> string \<Rightarrow> socket_data \<Rightarrow> string option \<Rightarrow> outcome" where
  "on_chat st sid sd text_opt =
     (if str_or (data_roomId sd) [] = [] \<or> str_or text_opt [] = [] then finish st []
      else
        (let rid = str_or (data_roomId sd) [];
             name = str_or (data_name sd) ''Anon''
         in finish st [(To_room rid, Msg_chat name (str_or text_opt []))]))"

definition on_request_sync :: "server \<Rightarrow> string \<Rightarrow> socket_data \<Rightarrow> outcome" where
  "on_request_sync st sid sd =
     (if str_or (data_roomId sd) [] = [] then finish st []
      else
        (let rid = str_or (data_roomId sd) []
         in case getRoom st rid of
              Inl e \<Rightarrow> throw st e
            | Inr None \<Rightarrow> finish st []
            | Inr (Some room0) \<Rightarrow> finish st [(To_socket sid, room_state room0)]))"

text \<open>
  socket.io closes a socket by taking it out of all its rooms and out of the server
  before it fires \<open>disconnect\<close>, so \<open>fetchSockets\<close> in the handler no longer returns it.
  \<open>sockets[0]\<close> is the first remaining socket of the room.
\<close>

definition socket_close :: "server \<Rightarrow> string \<Rightarrow> server" where
  "socket_close st sid =
     st\<lparr> sockets := (sockets st)(sid := None),
         adapter := (\<lambda>r. removeAll sid (adapter st r)) \<rparr>"

definition fetchSockets :: "server \<Rightarrow> string \<Rightarrow> string list" where
  "fetchSockets st rid = adapter st rid"

definition on_disconnect :: "server \<Rightarrow> string \<Rightarrow> socket_data \<Rightarrow> outcome" where
  "on_disconnect st0 sid sd =
     (let st = socket_close st0 sid
      in if str_or (data_roomId sd) [] = [] then finish st []
         else
           (let rid = str_or (data_roomId sd) []
            in case getRoom st rid of
                 Inl e \<Rightarrow> throw st e
               | Inr None \<Rightarrow> finish st []
               | Inr (Some room0) \<Rightarrow>
                   (let room1 = room0\<lparr> membersCount :=
                                    Math_max (Num 0)
                                      (num_sub (num_or (membersCount room0) (Num 1)) (Num 1)) \<rparr>;
                        room2 = (if moderatorId room1 = sid then
                                   room1\<lparr> moderatorId :=
                                     (case fetchSockets st rid of [] \<Rightarrow> [] | s # _ \<Rightarrow> s) \<rparr>
                                 else room1);
                        st1 = setRoom st rid room2
                    in finish st1
                         (if membersCount room2 = Num 0 then []
                          else [(To_room rid, Msg_users (membersCount room2))]))))"

text \<open>An event of a socket that is not connected has no handler to run.\<close>

definition dispatch :: "server \<Rightarrow> string \<Rightarrow> event \<Rightarrow> outcome" where
  "dispatch st sid ev =
     (case ev of
        Connection \<Rightarrow> on_connection st sid
      | _ \<Rightarrow>
        (case sockets st sid of
           None \<Rightarrow> finish st []
         | Some sd \<Rightarrow>
             (case ev of
                Connection \<Rightarrow> finish st []
              | Join_room r n rnd \<Rightarrow> on_join_room st sid r n rnd
              | Load_video v \<Rightarrow> on_load_video st sid sd v
              | Play t \<Rightarrow> on_play st sid sd t
              | Pause t \<Rightarrow> on_pause st sid sd t
              | Seek t \<Rightarrow> on_seek st sid sd t
              | Chat x \<Rightarrow> on_chat st sid sd x
              | Request_sync \<Rightarrow> on_request_sync st sid sd
              | Disconnect \<Rightarrow> on_disconnect st sid sd)))"

text \<open>A run of the server: the events are handled one after the other.\<close>

fun run :: "server \<Rightarrow> (string \<times> event) list \<Rightarrow> server" where
  "run st [] = st"
| "run st ((sid, ev) # evs) = run (next_state (dispatch st sid ev)) evs"

definition init :: server where
  "init = \<lparr> redis = (\<lambda>_. []), expiry = (\<lambda>_. None), sockets = (\<lambda>_. None), adapter = (\<lambda>_. []) \<rparr>"


text \<open>
  What \<open>setRoom\<close> keeps of a room: \<open>state.time || 0\<close> and \<open>state.membersCount || 0\<close>
  turn NaN into 0, every other field is written as it is.
\<close>

definition stored :: "room \<Rightarrow> room" where
  "stored r = r\<lparr> time := num_or (time r) (Num 0),
                membersCount := num_or (membersCount r) (Num 0) \<rparr>"

section \<open>Well-formed rooms and example runs\<close>


text \<open>Alice connects as socket A and joins room r1.\<close>

definition demo_alice :: "(string \<times> event) list" where
  "demo_alice = [(''A'', Connection), (''A'', Join_room (Some ''r1'') (Some ''Alice'') 0)]"

text \<open>Bob then connects as socket B and joins the same room.\<close>

definition demo_pair :: "(string \<times> event) list" where
  "demo_pair = demo_alice @ [(''B'', Connection), (''B'', Join_room (Some ''r1'') (Some ''Bob'') 0)]"

text \<open>Alice alone, sending join-room for r1 a second time.\<close>

definition demo_rejoin :: "(string \<times> event) list" where
  "demo_rejoin = demo_alice @ [(''A'', Join_room (Some ''r1'') (Some ''Alice'') 0)]"

text \<open>
  Alice in r1, with the room's moderator field emptied in the store. No run of the server
  leads to this store; it is written from outside, to see what a handler does with it.
\<close>

definition demo_nomod :: server where
  "demo_nomod = setRoom (run init demo_alice) ''r1''
     \<lparr> videoId = [], time = Num 0, playing = False, membersCount = Num 1,
       moderatorId = [], queue = [] \<rparr>"

text \<open>
  Bob and Alice connect; Alice joins the room named by Bob's socket id and disconnects.
\<close>

definition demo_own_room :: "(string \<times> event) list" where
  "demo_own_room =
     [(''B'', Connection), (''A'', Connection),
      (''A'', Join_room (Some ''B'') (Some ''Alice'') 0), (''A'', Disconnect)]"

section \<open>The handlers' room updates\<close>

text \<open>
  The pieces of the handlers, named so that their effect can be stated: the record
  \<open>ensureRoomExists\<close> creates, what join-room and disconnect do to the room they read,
  the room a handler works on (\<open>socket.data.roomId\<close> is set and \<open>getRoom\<close> finds the
  record; otherwise every handler but join-room returns at once), and the name and the
  binding join-room gives the socket.
\<close>

definition new_room :: "string \<Rightarrow> room" where
  "new_room creatorSocketId =
     \<lparr> videoId = [], time = Num 0, playing = False, membersCount = Num 0,
       moderatorId = creatorSocketId, queue = [] \<rparr>"

definition join_update :: "string \<Rightarrow> room \<Rightarrow> room" where
  "join_update sid room0 =
     (let room1 = room0\<lparr> membersCount := num_add (num_or (membersCount room0) (Num 0)) (Num 1) \<rparr>
      in if moderatorId room1 = [] then room1\<lparr> moderatorId := sid \<rparr> else room1)"

definition leave_update :: "string \<Rightarrow> string list \<Rightarrow> room \<Rightarrow> room" where
  "leave_update sid remaining room0 =
     (let room1 = room0\<lparr> membersCount :=
                     Math_max (Num 0) (num_sub (num_or (membersCount room0) (Num 1)) (Num 1)) \<rparr>
      in if moderatorId room1 = sid then
           room1\<lparr> moderatorId := (case remaining of [] \<Rightarrow> [] | s # _ \<Rightarrow> s) \<rparr>
         else room1)"

definition bound_room :: "server \<Rightarrow> socket_data \<Rightarrow> (string \<times> room) option" where
  "bound_room st sd =
     (if str_or (data_roomId sd) [] = [] then None
      else case getRoom st (str_or (data_roomId sd) []) of
             Inr (Some room0) \<Rightarrow> Some (str_or (data_roomId sd) [], room0)
           | _ \<Rightarrow> None)"

definition join_name :: "string option \<Rightarrow> nat \<Rightarrow> string" where
  "join_name name_opt rnd =
     (if str_or name_opt [] = [] then ''User'' @ dec (rnd mod 9000 + 1000) else str_or name_opt [])"

definition join_bind :: "server \<Rightarrow> string \<Rightarrow> string \<Rightarrow> string \<Rightarrow> server" where
  "join_bind st sid rid name =
     (socket_join st sid rid)\<lparr> sockets := (sockets st)(sid \<mapsto>
        \<lparr> data_name = Some name, data_roomId = Some rid \<rparr>) \<rparr>"

section \<open>Invariants of runs\<close>

text \<open>The time carried by play, pause and seek; \<open>None\<close> for the other events.\<close>

fun event_time :: "event \<Rightarrow> number option" where
  "event_time (Play t) = t"
| "event_time (Pause t) = t"
| "event_time (Seek t) = t"
| "event_time _ = None"

text \<open>A finite number that is not negative; a non-negative integer.\<close>

definition nonneg_num :: "number \<Rightarrow> bool" where
  "nonneg_num x = (case x of Num n \<Rightarrow> 0 \<le> n | _ \<Rightarrow> False)"

definition natural_num :: "number \<Rightarrow> bool" where
  "natural_num x = (case x of Num n \<Rightarrow> 0 \<le> n \<and> is_integer n | _ \<Rightarrow> False)"

text \<open>The event carries no time, or a finite time that is not negative.\<close>

definition nonneg_time :: "event \<Rightarrow> bool" where
  "nonneg_time ev = (case event_time ev of None \<Rightarrow> True | Some t \<Rightarrow> nonneg_num t)"

text \<open>Every stored room can be read and satisfies \<open>P\<close>.\<close>

definition rooms_all :: "(room \<Rightarrow> bool) \<Rightarrow> server \<Rightarrow> bool" where
  "rooms_all P st =
     (\<forall>r. case getRoom st r of
             Inl e \<Rightarrow> False
           | Inr None \<Rightarrow> True
           | Inr (Some room0) \<Rightarrow> P room0)"

text \<open>
  What holds of the transport in every run: socket ids are not empty, no socket is bound
  to the empty room id, and the adapter only lists connected sockets.
\<close>

definition transport_ok :: "server \<Rightarrow> bool" where
  "transport_ok st =
     ((\<forall>s sd. sockets st s = Some sd \<longrightarrow> s \<noteq> [] \<and> data_roomId sd \<noteq> Some []) \<and>
      (\<forall>r s. s \<in> set (adapter st r) \<longrightarrow> sockets st s \<noteq> None))"

text \<open>
  What also holds in every run: a socket bound to a room is in that room of the adapter,
  and the room has a record that names a moderator.
\<close>

definition moderated :: "server \<Rightarrow> bool" where
  "moderated st =
     (\<forall>s sd r. sockets st s = Some sd \<longrightarrow> data_roomId sd = Some r \<longrightarrow>
        s \<in> set (adapter st r) \<and>
        (\<exists>room0. getRoom st r = Inr (Some room0) \<and> moderatorId room0 \<noteq> []))"

text \<open>
  The discipline of the shipped client and of socket.io's ids: a connection sends
  join-room with a room id at most once (the client emits it once, on connect), and a
  room id is never the id of a connection (socket.io puts every socket into the room of
  its own id, and its ids are random). \<open>allowed\<close> is the condition on one event,
  \<open>conforms\<close> on a run.
\<close>

definition allowed :: "server \<Rightarrow> string \<Rightarrow> event \<Rightarrow> bool" where
  "allowed st sid ev =
     (case ev of
        Connection \<Rightarrow> getRoom st sid = Inr None
      | Join_room ro nm rnd \<Rightarrow>
          str_or ro [] = [] \<or>
          ((case sockets st sid of None \<Rightarrow> True | Some sd \<Rightarrow> data_roomId sd = None) \<and>
           sockets st (str_or ro []) = None)
      | _ \<Rightarrow> True)"

fun conforms :: "server \<Rightarrow> (string \<times> event) list \<Rightarrow> bool" where
  "conforms st [] = True"
| "conforms st ((sid, ev) # evs) =
     (allowed st sid ev \<and> conforms (next_state (dispatch st sid ev)) evs)"

text \<open>
  The state such runs keep, on the rooms as \<open>getRoom\<close> reads them, the sockets and the
  adapter: the members of a room's record are exactly the connected sockets bound to
  it, the record counts them, and its moderator is one of them (or empty when there
  is none).
\<close>

definition room_ok ::
  "(string \<Rightarrow> exn + room option) \<Rightarrow> (string \<Rightarrow> socket_data option) \<Rightarrow> (string \<Rightarrow> string list) \<Rightarrow>
   string \<Rightarrow> bool" where
  "room_ok G S A r =
     (case G r of
        Inl e \<Rightarrow> False
      | Inr None \<Rightarrow> True
      | Inr (Some room0) \<Rightarrow>
          r \<noteq> [] \<and> S r = None \<and>
          membersCount room0 = Num (of_nat (length (A r))) \<and>
          (if A r = [] then moderatorId room0 = [] else moderatorId room0 \<in> set (A r)))"

definition coherent ::
  "(string \<Rightarrow> exn + room option) \<Rightarrow> (string \<Rightarrow> socket_data option) \<Rightarrow> (string \<Rightarrow> string list) \<Rightarrow>
   bool" where
  "coherent G S A =
     ((\<forall>s sd. S s = Some sd \<longrightarrow> s \<noteq> []) \<and>
      (\<forall>r. distinct (A r)) \<and>
      (\<forall>r s. s \<in> set (A r) \<longleftrightarrow> (\<exists>sd. S s = Some sd \<and> (r = s \<or> data_roomId sd = Some r))) \<and>
      (\<forall>r. room_ok G S A r) \<and>
      (\<forall>s sd r. S s = Some sd \<longrightarrow> data_roomId sd = Some r \<longrightarrow> G r \<noteq> Inr None))"

definition consistent :: "server \<Rightarrow> bool" where
  "consistent st = coherent (getRoom st) (sockets st) (adapter st)"

section \<open>The encodings round-trip\<close>

subsection \<open>Numbers\<close>

text \<open>
  The decimal numbers are a subring of the rationals; their representing rational is
  used to compute with them.
\<close>

declare dec.simps [simp del]
declare places.simps [simp del]
declare trailing_zeros.simps [simp del]

lemma rat_numeral: "rat_of_decimal (numeral n) = numeral n"
  by (induct n) (simp_all only: numeral.simps one_decimal.rep_eq plus_decimal.rep_eq)

lemma rat_of_nat: "rat_of_decimal (of_nat n) = of_nat n"
  by (induct n) (simp_all add: zero_decimal.rep_eq one_decimal.rep_eq plus_decimal.rep_eq)

lemma rat_of_int: "rat_of_decimal (of_int z) = of_int z"
  by (cases z)
     (simp_all add: rat_of_nat uminus_decimal.rep_eq minus_decimal.rep_eq one_decimal.rep_eq)

lemma rat_power: "rat_of_decimal (a ^ n) = rat_of_decimal a ^ n"
  by (induct n) (simp_all add: one_decimal.rep_eq times_decimal.rep_eq)

lemmas rat_simps =
  rat_numeral rat_of_nat rat_of_int rat_power zero_decimal.rep_eq one_decimal.rep_eq
  plus_decimal.rep_eq minus_decimal.rep_eq uminus_decimal.rep_eq times_decimal.rep_eq
  less_eq_decimal.rep_eq less_decimal.rep_eq scale10.rep_eq floor_decimal.rep_eq

lemma decimal_eq_iff: "a = b \<longleftrightarrow> rat_of_decimal a = rat_of_decimal b"
  by (simp add: rat_of_decimal_inject)

lemma places_integer: "is_integer (x * 10 ^ places x)"
proof (induction x rule: places.induct)
  case (1 d)
  show ?case
  proof (cases "is_integer d")
    case True
    then show ?thesis by (subst places.simps) simp
  next
    case False
    then have "is_integer (d * 10 * 10 ^ places (d * 10))" using 1 by simp
    then show ?thesis using False by (subst places.simps) (simp add: mult.assoc)
  qed
qed

lemma is_integer_iff: "is_integer x \<longleftrightarrow> rat_of_decimal x \<in> \<int>"
proof
  assume "is_integer x"
  then have h: "rat_of_int \<lfloor>rat_of_decimal x\<rfloor> = rat_of_decimal x"
    by (simp add: is_integer.rep_eq)
  have "rat_of_int \<lfloor>rat_of_decimal x\<rfloor> \<in> \<int>" by (rule Ints_of_int)
  then show "rat_of_decimal x \<in> \<int>" by (simp only: h)
next
  assume "rat_of_decimal x \<in> \<int>"
  then obtain z where "rat_of_decimal x = of_int z" by (auto elim: Ints_cases)
  then show "is_integer x" by (simp add: is_integer.rep_eq)
qed

lemma integer_of_nat: "is_integer y \<Longrightarrow> 0 \<le> y \<Longrightarrow> of_nat (nat (floor_decimal y)) = y"
  by (auto simp: decimal_eq_iff is_integer_iff rat_simps elim!: Ints_cases)

lemma trailing_zeros_split: "m = (m div 10 ^ trailing_zeros m) * 10 ^ trailing_zeros m"
proof (induction m rule: trailing_zeros.induct)
  case (1 m)
  show ?case
  proof (cases "m = 0 \<or> m mod 10 \<noteq> 0")
    case True
    then show ?thesis by (subst (1 2) trailing_zeros.simps) simp
  next
    case False
    then have ih: "m div 10 = (m div 10 div 10 ^ trailing_zeros (m div 10)) * 10 ^ trailing_zeros (m div 10)"
      using 1 by simp
    have tz: "trailing_zeros m = Suc (trailing_zeros (m div 10))"
      using False by (subst trailing_zeros.simps) simp
    have m: "m = m div 10 * 10" using False by auto
    have "m div 10 ^ trailing_zeros m = m div 10 div 10 ^ trailing_zeros (m div 10)"
      by (simp add: tz div_mult2_eq)
    then show ?thesis using ih m by (simp add: tz)
  qed
qed

lemma trailing_zeros_pos: "0 < m \<Longrightarrow> 0 < m div 10 ^ trailing_zeros m"
  using trailing_zeros_split [of m] by (cases "m div 10 ^ trailing_zeros m = 0") auto


lemma scale10_shift: "scale10 (m * 10 ^ j) e = scale10 m (e + int j)"
  by (simp add: decimal_eq_iff rat_simps power_int_add)

lemma scale10_0: "scale10 m 0 = of_int m"
  by (simp add: decimal_eq_iff rat_simps)

lemma scale10_zero: "scale10 0 e = 0"
  by (simp add: decimal_eq_iff rat_simps)

lemma scale10_uminus: "scale10 (- m) e = - scale10 m e"
  by (simp add: decimal_eq_iff rat_simps)

lemma power10_pos: "0 < (10 :: rat) powi e"
  by (simp add: power_int_def)

lemma scale10_nonneg: "0 \<le> scale10 m e \<longleftrightarrow> 0 \<le> m"
proof (cases "0 \<le> m")
  case True
  then have "0 \<le> (of_int m :: rat) * 10 powi e"
    by (intro mult_nonneg_nonneg less_imp_le [OF power10_pos]) simp
  then show ?thesis using True by (simp add: rat_simps)
next
  case False
  then have "(of_int m :: rat) * 10 powi e < 0"
    by (intro mult_neg_pos power10_pos) simp
  then show ?thesis using False by (simp add: rat_simps not_le)
qed

lemma scale10_eq_0: "scale10 m e = 0 \<longleftrightarrow> m = 0"
  by (simp add: decimal_eq_iff rat_simps)

text \<open>The digits and the exponent that \<open>String_pos\<close> prints denote the number.\<close>

lemma digits_value:
  assumes "0 < x"
  defines "m \<equiv> nat (floor_decimal (x * 10 ^ places x))"
  shows "0 < m div 10 ^ trailing_zeros m"
    and "x = scale10 (int (m div 10 ^ trailing_zeros m)) (int (trailing_zeros m) - int (places x))"
proof -
  let ?p = "places x" and ?z = "trailing_zeros m" and ?s = "m div 10 ^ trailing_zeros m"
  have pos: "0 < x * 10 ^ ?p" using assms(1) by simp
  have xm: "x * 10 ^ ?p = of_nat m"
    unfolding m_def using places_integer [of x] pos by (simp add: integer_of_nat)
  then have "0 < m" using pos by (cases "m = 0") auto
  then show "0 < ?s" by (rule trailing_zeros_pos)
  have "rat_of_decimal x * 10 ^ ?p = of_nat m"
    using xm by (simp add: decimal_eq_iff rat_simps)
  also have "\<dots> = of_nat ?s * 10 ^ ?z"
    using trailing_zeros_split [of m] by (metis of_nat_mult of_nat_power of_nat_numeral)
  finally have "rat_of_decimal x = of_nat ?s * 10 ^ ?z / 10 ^ ?p"
    by (simp add: field_simps)
  also have "\<dots> = of_nat ?s * 10 powi (int ?z - int ?p)"
    by (simp add: power_int_diff)
  finally show "x = scale10 (int ?s) (int ?z - int ?p)"
    by (simp add: decimal_eq_iff rat_simps)
qed

lemma is_digit_char_of: "d < 10 \<Longrightarrow> is_digit (char_of (48 + d :: nat))"
  by (simp add: is_digit_def)

lemma dec_digits: "list_all is_digit (dec n)"
proof (induction n rule: dec.induct)
  case (1 n)
  show ?case
  proof (cases "n < 10")
    case True
    then show ?thesis by (subst dec.simps) (simp add: is_digit_char_of)
  next
    case False
    then show ?thesis using 1 by (subst dec.simps) (simp add: is_digit_char_of)
  qed
qed

lemma dec_not_Nil: "dec n \<noteq> []"
  by (subst dec.simps) simp

lemma digits_nat_Nil: "digits_nat [] = 0"
  by (simp add: digits_nat_def)

lemma digits_nat_snoc: "digits_nat (xs @ [c]) = 10 * digits_nat xs + ((of_char c :: nat) - 48)"
  by (simp add: digits_nat_def)

lemma digits_nat_append: "digits_nat (xs @ ys) = digits_nat xs * 10 ^ length ys + digits_nat ys"
proof (induction ys rule: rev_induct)
  case Nil
  show ?case by (simp add: digits_nat_Nil)
next
  case (snoc y ys)
  have "digits_nat (xs @ ys @ [y]) = 10 * digits_nat (xs @ ys) + ((of_char y :: nat) - 48)"
    using digits_nat_snoc [of "xs @ ys" y] by simp
  then show ?case using snoc by (simp add: digits_nat_snoc algebra_simps)
qed

lemma digits_nat_zeros: "digits_nat (replicate j (CHR ''0'')) = 0"
proof (induction j)
  case 0
  show ?case by (simp add: digits_nat_Nil)
next
  case (Suc j)
  have "replicate (Suc j) (CHR ''0'') = replicate j (CHR ''0'') @ [CHR ''0'']"
    by (simp add: replicate_append_same)
  then show ?case using Suc by (simp only: digits_nat_snoc) simp
qed

lemma digits_nat_dec: "digits_nat (dec n) = n"
proof (induction n rule: dec.induct)
  case (1 n)
  show ?case
  proof (cases "n < 10")
    case True
    then show ?thesis
      using digits_nat_snoc [of "[]" "char_of (48 + n)"] by (subst dec.simps) (simp add: digits_nat_Nil)
  next
    case False
    then have "digits_nat (dec (n div 10)) = n div 10" using 1 by simp
    then show ?thesis using False by (subst dec.simps) (simp add: digits_nat_snoc)
  qed
qed

lemma is_digit_not_ws: "is_digit c \<Longrightarrow> \<not> StrWhiteSpaceChar c"
  by (auto simp: is_digit_def StrWhiteSpaceChar_def)

lemma trim_id:
  assumes "s \<noteq> []" and "\<not> StrWhiteSpaceChar (hd s)" and "\<not> StrWhiteSpaceChar (last s)"
  shows "trim s = s"
proof -
  have a: "dropWhile StrWhiteSpaceChar s = s"
    using assms(1,2) by (simp add: dropWhile_eq_self_iff)
  have b: "dropWhile StrWhiteSpaceChar (rev s) = rev s"
    using assms(1,3) by (simp add: dropWhile_eq_self_iff hd_rev)
  show ?thesis by (simp add: trim_def a b)
qed

lemma takeWhile_digits:
  "list_all is_digit ds \<Longrightarrow> t = [] \<or> \<not> is_digit (hd t) \<Longrightarrow> takeWhile is_digit (ds @ t) = ds"
  by (induction ds) (auto simp: takeWhile_eq_Nil_iff intro: hd_in_set)

lemma dropWhile_digits:
  "list_all is_digit ds \<Longrightarrow> t = [] \<or> \<not> is_digit (hd t) \<Longrightarrow> dropWhile is_digit (ds @ t) = t"
  by (induction ds) (auto simp: dropWhile_eq_self_iff)

lemma SignedInteger_dec:
  "SignedInteger ((if e < 0 then CHR ''-'' else CHR ''+'') # dec (nat \<bar>e\<bar>)) = Some e"
  by (simp add: SignedInteger_def dec_not_Nil dec_digits digits_nat_dec)

lemma literal_alt:
  "literal ip fp ex = ip @ (if fp = [] then [] else CHR ''.'' # fp) @ exponent_text ex"
  by (simp add: literal_def)

lemma exponent_text_head: "exponent_text ex = [] \<or> hd (exponent_text ex) = CHR ''e''"
  by (cases ex) (simp_all add: exponent_text_def)

lemma not_digit_chars: "\<not> is_digit (CHR ''e'')" "\<not> is_digit (CHR ''.'')"
  by (simp_all add: is_digit_def)

lemma exponent_text_parse:
  "(case exponent_text ex of
      [] \<Rightarrow> Some 0
    | c # cs \<Rightarrow> if c = CHR ''e'' \<or> c = CHR ''E'' then SignedInteger cs else None) =
   Some (case ex of None \<Rightarrow> 0 | Some e \<Rightarrow> e)"
  by (cases ex) (simp_all add: exponent_text_def SignedInteger_dec)

lemma StrUnsignedDecimalLiteral_literal:
  assumes ip: "ip \<noteq> []" "list_all is_digit ip" and fp: "list_all is_digit fp"
  shows "StrUnsignedDecimalLiteral (literal ip fp ex) =
           Num (scale10 (int (digits_nat (ip @ fp)))
                  ((case ex of None \<Rightarrow> 0 | Some e \<Rightarrow> e) - int (length fp)))"
proof -
  let ?x = "exponent_text ex"
  let ?r = "(if fp = [] then [] else CHR ''.'' # fp) @ ?x"
  have xh: "?x = [] \<or> \<not> is_digit (hd ?x)"
    using exponent_text_head [of ex] not_digit_chars by auto
  have rh: "?r = [] \<or> \<not> is_digit (hd ?r)"
    using xh not_digit_chars by auto
  have hd_digit: "is_digit (hd (literal ip fp ex))"
    using ip by (cases ip) (simp_all add: literal_alt)
  have notinf: "literal ip fp ex \<noteq> ''Infinity''"
  proof
    assume "literal ip fp ex = ''Infinity''"
    then have "hd (literal ip fp ex) = CHR ''I''" by simp
    then show False using hd_digit by (simp add: is_digit_def)
  qed
  have t: "takeWhile is_digit (literal ip fp ex) = ip"
    unfolding literal_alt using ip(2) rh by (rule takeWhile_digits)
  have d: "dropWhile is_digit (literal ip fp ex) = ?r"
    unfolding literal_alt using ip(2) rh by (rule dropWhile_digits)
  have f: "(case ?r of [] \<Rightarrow> [] | c # cs \<Rightarrow> if c = CHR ''.'' then takeWhile is_digit cs else []) = fp"
  proof (cases "fp = []")
    case True
    then show ?thesis using exponent_text_head [of ex] by (cases ?x) auto
  next
    case False
    then show ?thesis using takeWhile_digits [OF fp xh] by simp
  qed
  have r': "(case ?r of [] \<Rightarrow> [] | c # cs \<Rightarrow> if c = CHR ''.'' then dropWhile is_digit cs else ?r) = ?x"
  proof (cases "fp = []")
    case True
    then show ?thesis using exponent_text_head [of ex] by (cases ?x) auto
  next
    case False
    then show ?thesis using dropWhile_digits [OF fp xh] by simp
  qed
  show ?thesis
    unfolding StrUnsignedDecimalLiteral_def Let_def t d f r' exponent_text_parse
    using notinf ip(1) by simp
qed

lemma literal_last_digit:
  assumes ip: "ip \<noteq> []" "list_all is_digit ip" and fp: "list_all is_digit fp"
  shows "is_digit (last (literal ip fp ex))"
proof (cases ex)
  case (Some e)
  have "last (dec (nat \<bar>e\<bar>)) \<in> set (dec (nat \<bar>e\<bar>))" using dec_not_Nil by simp
  then have "is_digit (last (dec (nat \<bar>e\<bar>)))" using dec_digits by (simp add: list_all_iff)
  then show ?thesis using Some by (simp add: literal_def exponent_text_def dec_not_Nil)
next
  case None
  show ?thesis
  proof (cases "fp = []")
    case True
    then show ?thesis using None ip by (simp add: literal_def exponent_text_def list_all_iff)
  next
    case False
    then show ?thesis using None fp by (simp add: literal_def exponent_text_def list_all_iff)
  qed
qed

lemma literal_not_Nil: "ip \<noteq> [] \<Longrightarrow> literal ip fp ex \<noteq> []"
  by (simp add: literal_def exponent_text_def)

lemma Number_str_literal:
  assumes ip: "ip \<noteq> []" "list_all is_digit ip" and fp: "list_all is_digit fp"
  shows "Number_str (literal ip fp ex) = StrUnsignedDecimalLiteral (literal ip fp ex)"
proof -
  obtain c cs where l: "literal ip fp ex = c # cs"
    using ip(1) by (cases "literal ip fp ex") (simp_all add: literal_def exponent_text_def)
  have c: "is_digit c" using l ip by (cases ip) (simp_all add: literal_alt)
  have tr: "trim (literal ip fp ex) = c # cs"
    using trim_id [of "literal ip fp ex"] l c literal_last_digit [OF assms, of ex] is_digit_not_ws
    by auto
  have second: "cs = [] \<or> is_digit (hd cs) \<or> hd cs = CHR ''.'' \<or> hd cs = CHR ''e''"
  proof (cases ip)
    case Nil
    then show ?thesis using ip by simp
  next
    case (Cons a as)
    then have cs: "cs = as @ (if fp = [] then [] else CHR ''.'' # fp) @ exponent_text ex"
      using l by (simp add: literal_alt)
    show ?thesis
    proof (cases as)
      case (Cons b bs)
      then show ?thesis using cs ip(2) \<open>ip = a # as\<close> by simp
    next
      case Nil
      then show ?thesis using cs exponent_text_head [of ex] by (cases "fp = []") auto
    qed
  qed
  have noradix: "\<not> (cs \<noteq> [] \<and> (hd cs = CHR ''x'' \<or> hd cs = CHR ''X''))"
    "\<not> (cs \<noteq> [] \<and> (hd cs = CHR ''o'' \<or> hd cs = CHR ''O''))"
    "\<not> (cs \<noteq> [] \<and> (hd cs = CHR ''b'' \<or> hd cs = CHR ''B''))"
    using second by (auto simp: is_digit_def)
  have nosign: "c \<noteq> CHR ''-''" "c \<noteq> CHR ''+''" using c by (auto simp: is_digit_def)
  have "Number_str (literal ip fp ex) = StrUnsignedDecimalLiteral (c # cs)"
    unfolding Number_str_def tr using noradix nosign by auto
  then show ?thesis using l by simp
qed

lemma Number_str_minus_literal:
  assumes ip: "ip \<noteq> []" "list_all is_digit ip" and fp: "list_all is_digit fp"
  shows "Number_str (CHR ''-'' # literal ip fp ex) =
           num_neg (StrUnsignedDecimalLiteral (literal ip fp ex))"
proof -
  have "last (CHR ''-'' # literal ip fp ex) = last (literal ip fp ex)"
    using literal_not_Nil [OF ip(1)] by simp
  then have "\<not> StrWhiteSpaceChar (last (CHR ''-'' # literal ip fp ex))"
    using literal_last_digit [OF assms, of ex] is_digit_not_ws by simp
  then have "trim (CHR ''-'' # literal ip fp ex) = CHR ''-'' # literal ip fp ex"
    by (intro trim_id) (simp_all add: StrWhiteSpaceChar_def)
  then show ?thesis by (simp add: Number_str_def)
qed

lemma literal_digits:
  assumes x: "x = scale10 (int s) e"
    and ip: "ip \<noteq> []" "list_all is_digit ip" and fp: "list_all is_digit fp"
    and v: "digits_nat (ip @ fp) = s * 10 ^ j"
    and ex: "(case ex of None \<Rightarrow> 0 | Some y \<Rightarrow> y) - int (length fp) + int j = e"
  shows "StrUnsignedDecimalLiteral (literal ip fp ex) = Num x"
proof -
  have "scale10 (int (digits_nat (ip @ fp))) ((case ex of None \<Rightarrow> 0 | Some y \<Rightarrow> y) - int (length fp)) =
        scale10 (int s * 10 ^ j) ((case ex of None \<Rightarrow> 0 | Some y \<Rightarrow> y) - int (length fp))"
    by (simp add: v)
  also have "\<dots> = scale10 (int s) e"
    by (simp only: scale10_shift ex)
  finally show ?thesis using StrUnsignedDecimalLiteral_literal [OF ip fp, of ex] x by simp
qed

text \<open>What \<open>String_pos\<close> prints is a decimal literal that denotes the number.\<close>

lemma String_pos_literal:
  assumes "0 < x"
  shows "\<exists>ip fp ex. String_pos x = literal ip fp ex \<and> ip \<noteq> [] \<and> list_all is_digit ip \<and>
           list_all is_digit fp \<and> StrUnsignedDecimalLiteral (literal ip fp ex) = Num x"
proof -
  define p where "p = places x"
  define m where "m = nat (floor_decimal (x * 10 ^ p))"
  define z where "z = trailing_zeros m"
  define s where "s = m div 10 ^ z"
  define ds where "ds = dec s"
  define k where "k = int (length ds)"
  define n where "n = k + int z - int p"
  have x: "x = scale10 (int s) (n - k)"
    using digits_value(2) [OF assms] by (simp add: p_def m_def z_def s_def n_def)
  have dg: "list_all is_digit ds" and ne: "ds \<noteq> []" and val: "digits_nat ds = s"
    by (simp_all add: ds_def dec_digits dec_not_Nil digits_nat_dec)
  have sp: "String_pos x =
     (if k \<le> n \<and> n \<le> 21 then literal (ds @ replicate (nat (n - k)) CHR ''0'') [] None
      else if 0 < n \<and> n \<le> 21 then literal (take (nat n) ds) (drop (nat n) ds) None
      else if - 6 < n \<and> n \<le> 0 then literal ''0'' (replicate (nat (- n)) CHR ''0'' @ ds) None
      else literal [hd ds] (tl ds) (Some (n - 1)))"
    by (simp add: String_pos_def Let_def p_def m_def z_def s_def ds_def k_def n_def)
  have zeros: "list_all is_digit (replicate i (CHR ''0''))" for i
    by (simp add: list_all_iff is_digit_def)
  have goal: ?thesis
    if "String_pos x = literal ip fp ex" "ip \<noteq> []" "list_all is_digit ip" "list_all is_digit fp"
      "digits_nat (ip @ fp) = s * 10 ^ j"
      "(case ex of None \<Rightarrow> 0 | Some y \<Rightarrow> y) - int (length fp) + int j = n - k"
    for ip fp ex j
    using that literal_digits [OF x that(2-6)] by blast
  consider (a) "k \<le> n" "n \<le> 21"
    | (b) "\<not> (k \<le> n \<and> n \<le> 21)" "0 < n" "n \<le> 21"
    | (c) "\<not> (k \<le> n \<and> n \<le> 21)" "\<not> (0 < n \<and> n \<le> 21)" "- 6 < n" "n \<le> 0"
    | (d) "\<not> (k \<le> n \<and> n \<le> 21)" "\<not> (0 < n \<and> n \<le> 21)" "\<not> (- 6 < n \<and> n \<le> 0)"
    by blast
  then show ?thesis
  proof cases
    case a
    show ?thesis
    proof (rule goal [where j = "nat (n - k)"])
      show "String_pos x = literal (ds @ replicate (nat (n - k)) CHR ''0'') [] None"
        using a by (simp add: sp)
      show "ds @ replicate (nat (n - k)) CHR ''0'' \<noteq> []" using ne by simp
      show "list_all is_digit (ds @ replicate (nat (n - k)) CHR ''0'')" using dg zeros by simp
      show "list_all is_digit []" by simp
      show "digits_nat ((ds @ replicate (nat (n - k)) CHR ''0'') @ []) = s * 10 ^ nat (n - k)"
        by (simp add: digits_nat_append digits_nat_zeros val)
      show "(case None of None \<Rightarrow> 0 | Some y \<Rightarrow> y) - int (length ([] :: string)) + int (nat (n - k)) = n - k"
        using a by simp
    qed
  next
    case b
    then have nk: "n < k" by auto
    show ?thesis
    proof (rule goal [where j = 0])
      show "String_pos x = literal (take (nat n) ds) (drop (nat n) ds) None"
        using b by (simp add: sp)
      show "take (nat n) ds \<noteq> []" using ne b by simp
      show "list_all is_digit (take (nat n) ds)"
        using dg by (auto simp: list_all_iff dest: in_set_takeD)
      show "list_all is_digit (drop (nat n) ds)"
        using dg by (auto simp: list_all_iff dest: in_set_dropD)
      show "digits_nat (take (nat n) ds @ drop (nat n) ds) = s * 10 ^ 0" by (simp add: val)
      show "(case None of None \<Rightarrow> 0 | Some y \<Rightarrow> y) - int (length (drop (nat n) ds)) + int 0 = n - k"
        using b nk by (simp add: k_def)
    qed
  next
    case c
    show ?thesis
    proof (rule goal [where j = 0])
      show "String_pos x = literal ''0'' (replicate (nat (- n)) CHR ''0'' @ ds) None"
        using c by (simp add: sp)
      show "''0'' \<noteq> []" by simp
      show "list_all is_digit ''0''" by (simp add: is_digit_def)
      show "list_all is_digit (replicate (nat (- n)) CHR ''0'' @ ds)" using dg zeros by simp
      have "''0'' @ replicate (nat (- n)) CHR ''0'' @ ds = replicate (Suc (nat (- n))) CHR ''0'' @ ds"
        by simp
      then show "digits_nat (''0'' @ replicate (nat (- n)) CHR ''0'' @ ds) = s * 10 ^ 0"
        by (simp only: digits_nat_append digits_nat_zeros val) simp
      show "(case None of None \<Rightarrow> 0 | Some y \<Rightarrow> y) -
              int (length (replicate (nat (- n)) CHR ''0'' @ ds)) + int 0 = n - k"
        using c by (simp add: k_def)
    qed
  next
    case d
    have hd_tl: "[hd ds] @ tl ds = ds" using ne by simp
    show ?thesis
    proof (rule goal [where j = 0])
      show "String_pos x = literal [hd ds] (tl ds) (Some (n - 1))"
        using d by (auto simp: sp)
      show "[hd ds] \<noteq> []" by simp
      show "list_all is_digit [hd ds]" using dg ne by (cases ds) simp_all
      show "list_all is_digit (tl ds)" using dg ne by (cases ds) simp_all
      show "digits_nat ([hd ds] @ tl ds) = s * 10 ^ 0" by (simp only: hd_tl val) simp
      show "(case Some (n - 1) of None \<Rightarrow> 0 | Some y \<Rightarrow> y) - int (length (tl ds)) + int 0 = n - k"
        using ne by (cases ds) (simp_all add: k_def)
    qed
  qed
qed

lemma Number_str_zero: "Number_str ''0'' = Num 0"
  using Number_str_literal [of "''0''" "[]" None] StrUnsignedDecimalLiteral_literal [of "''0''" "[]" None]
  by (simp add: literal_def exponent_text_def is_digit_def digits_nat_def scale10_zero)

lemma Number_str_NaN: "Number_str ''NaN'' = NaN"
  by (simp add: Number_str_def trim_def StrWhiteSpaceChar_def StrUnsignedDecimalLiteral_def
      is_digit_def)

lemma Number_str_Infinity: "Number_str ''Infinity'' = PosInf"
  by (simp add: Number_str_def trim_def StrWhiteSpaceChar_def StrUnsignedDecimalLiteral_def)

lemma Number_str_minus_Infinity: "Number_str ''-Infinity'' = NegInf"
  by (simp add: Number_str_def trim_def StrWhiteSpaceChar_def StrUnsignedDecimalLiteral_def)

text \<open>Reading back what \<open>String\<close> printed gives the number that was printed.\<close>

lemma Number_str_String_num: "Number_str (String_num x) = x"
proof (cases x)
  case (Num d)
  consider (zero) "d = 0" | (neg) "d < 0" | (pos) "0 < d"
    using less_linear [of d 0] by blast
  then show ?thesis
  proof cases
    case zero
    then show ?thesis using Num by (simp add: Number_str_zero)
  next
    case pos
    obtain ip fp ex where l: "String_pos d = literal ip fp ex" "ip \<noteq> []" "list_all is_digit ip"
      "list_all is_digit fp" "StrUnsignedDecimalLiteral (literal ip fp ex) = Num d"
      using String_pos_literal [OF pos] by blast
    then show ?thesis using Num pos Number_str_literal [OF l(2-4), of ex] by simp
  next
    case neg
    then have "0 < - d" by simp
    then obtain ip fp ex where l: "String_pos (- d) = literal ip fp ex" "ip \<noteq> []"
      "list_all is_digit ip" "list_all is_digit fp"
      "StrUnsignedDecimalLiteral (literal ip fp ex) = Num (- d)"
      using String_pos_literal [of "- d"] by blast
    then show ?thesis using Num neg Number_str_minus_literal [OF l(2-4), of ex] by simp
  qed
qed (simp_all add: Number_str_NaN Number_str_Infinity Number_str_minus_Infinity)

lemma String_num_not_Nil: "String_num x \<noteq> []"
proof (cases x)
  case (Num d)
  have "String_pos y \<noteq> []" if h: "0 < y" for y
  proof -
    obtain ip fp ex where "String_pos y = literal ip fp ex" "ip \<noteq> []"
      using String_pos_literal [OF h] by blast
    then show ?thesis by (simp add: literal_not_Nil)
  qed
  from this [of d] this [of "- d"] show ?thesis using Num by auto
qed simp_all

subsection \<open>JSON\<close>

lemma hex_val_hex_digit: "d < 16 \<Longrightarrow> hex_val (hex_digit d) = Some d"
  by (auto simp: hex_val_def hex_digit_def Let_def)

lemma hex_val_zero: "hex_val (CHR ''0'') = Some 0"
  by (simp add: hex_val_def)

lemma hex4_escape:
  "hex4 (CHR ''0'') (CHR ''0'') (hex_digit ((of_char c :: nat) div 16))
        (hex_digit ((of_char c :: nat) mod 16)) = Some c"
proof -
  have "(of_char c :: nat) < 256" by simp
  then have "(of_char c :: nat) div 16 < 16" by arith
  moreover have "(of_char c :: nat) mod 16 < 16" by simp
  moreover have "16 * ((of_char c :: nat) div 16) + of_char c mod 16 = of_char c" by simp
  ultimately show ?thesis
    by (simp add: hex4_def hex_val_zero hex_val_hex_digit)
qed

lemma jscan_escape:
  "jscan Str acc cur (JSON_escape c @ rest) = jscan Str acc (cur @ [c]) rest"
proof -
  consider (named) "c \<in> {CHR 0x22, CHR 0x5C, CHR 0x08, CHR 0x0C, CHR 0x0A, CHR 0x0D, CHR 0x09}"
    | (ctl) "c \<notin> {CHR 0x22, CHR 0x5C, CHR 0x08, CHR 0x0C, CHR 0x0A, CHR 0x0D, CHR 0x09}"
        "(of_char c :: nat) < 32"
    | (plain) "c \<notin> {CHR 0x22, CHR 0x5C, CHR 0x08, CHR 0x0C, CHR 0x0A, CHR 0x0D, CHR 0x09}"
        "\<not> (of_char c :: nat) < 32"
    by blast
  then show ?thesis
  proof cases
    case named
    then show ?thesis
      by (auto simp: JSON_escape_def unescape_def)
  next
    case ctl
    then show ?thesis
      by (simp add: JSON_escape_def hex4_escape)
  next
    case plain
    then show ?thesis
      by (simp add: JSON_escape_def)
  qed
qed

lemma jscan_body:
  "jscan Str acc cur (concat (map JSON_escape s) @ CHR 0x22 # rest) =
   jscan Sep (acc @ [cur @ s]) [] rest"
proof (induction s arbitrary: cur)
  case Nil
  show ?case by simp
next
  case (Cons c s)
  have "jscan Str acc cur (concat (map JSON_escape (c # s)) @ CHR 0x22 # rest) =
        jscan Str acc cur (JSON_escape c @ (concat (map JSON_escape s) @ CHR 0x22 # rest))"
    by simp
  also have "\<dots> = jscan Str acc (cur @ [c]) (concat (map JSON_escape s) @ CHR 0x22 # rest)"
    by (rule jscan_escape)
  also have "\<dots> = jscan Sep (acc @ [(cur @ [c]) @ s]) [] rest"
    by (rule Cons.IH)
  finally show ?case by simp
qed

lemma jscan_Open_quote:
  "jscan Open acc cur (JSON_quote s @ rest) = jscan Sep (acc @ [s]) [] rest"
  using jscan_body [of acc "[]" s rest]
  by (simp add: JSON_quote_def json_ws_def)

lemma jscan_Next_quote:
  "jscan Next acc cur (JSON_quote s @ rest) = jscan Sep (acc @ [s]) [] rest"
  using jscan_body [of acc "[]" s rest]
  by (simp add: JSON_quote_def json_ws_def)

lemma jscan_tail:
  "jscan Sep acc [] (concat (map (\<lambda>y. CHR '','' # JSON_quote y) xs) @ '']'') = Some (acc @ xs)"
proof (induction xs arbitrary: acc)
  case Nil
  show ?case by (simp add: json_ws_def)
next
  case (Cons x xs)
  have "jscan Sep acc [] (concat (map (\<lambda>y. CHR '','' # JSON_quote y) (x # xs)) @ '']'') =
        jscan Next acc [] (JSON_quote x @ (concat (map (\<lambda>y. CHR '','' # JSON_quote y) xs) @ '']''))"
    by (simp add: json_ws_def)
  also have "\<dots> = jscan Sep (acc @ [x]) [] (concat (map (\<lambda>y. CHR '','' # JSON_quote y) xs) @ '']'')"
    by (rule jscan_Next_quote)
  also have "\<dots> = Some ((acc @ [x]) @ xs)"
    by (rule Cons.IH)
  finally show ?case by simp
qed

lemma JSON_parse_stringify: "JSON_parse (JSON_stringify q) = Some q"
proof (cases q)
  case Nil
  then show ?thesis by (simp add: JSON_parse_def json_ws_def)
next
  case (Cons x xs)
  have "jscan Start [] [] (JSON_stringify (x # xs)) =
        jscan Open [] [] (JSON_quote x @ (concat (map (\<lambda>y. CHR '','' # JSON_quote y) xs) @ '']''))"
    by (simp add: json_ws_def)
  also have "\<dots> = jscan Sep ([] @ [x]) [] (concat (map (\<lambda>y. CHR '','' # JSON_quote y) xs) @ '']'')"
    by (rule jscan_Open_quote)
  also have "\<dots> = Some (([] @ [x]) @ xs)"
    by (rule jscan_tail)
  finally show ?thesis using Cons by (simp add: JSON_parse_def)
qed

lemma JSON_stringify_not_Nil: "JSON_stringify q \<noteq> []"
  by (cases q) simp_all

subsection \<open>The store\<close>

lemma hset_not_Nil: "payload \<noteq> [] \<Longrightarrow> hset h payload \<noteq> []"
proof (induction payload arbitrary: h rule: rev_induct)
  case Nil
  then show ?case by simp
next
  case (snoc x xs)
  then show ?case by (cases x) (simp add: hset_def)
qed

lemma map_of_hset: "map_of (hset h payload) = fold (\<lambda>(k, v) m. m(k \<mapsto> v)) payload (map_of h)"
  unfolding hset_def
  by (induction payload arbitrary: h) (auto simp: update_conv')

lemma redis_setRoom:
  "redis (setRoom st rid r) k =
     (if k = ROOM_PREFIX @ rid
      then hset (redis st k)
             [(''videoId'', videoId r),
              (''time'', String_num (num_or (time r) (Num 0))),
              (''playing'', if playing r then ''true'' else ''false''),
              (''membersCount'', String_num (num_or (membersCount r) (Num 0))),
              (''moderatorId'', moderatorId r),
              (''queue'', JSON_stringify (queue r))]
      else redis st k)"
  by (simp add: setRoom_def Let_def)

lemma sockets_setRoom: "sockets (setRoom st rid r) = sockets st"
  by (simp add: setRoom_def Let_def)

lemma adapter_setRoom: "adapter (setRoom st rid r) = adapter st"
  by (simp add: setRoom_def Let_def)

lemma getRoom_cong: "redis st (ROOM_PREFIX @ rid) = redis st' (ROOM_PREFIX @ rid) \<Longrightarrow> getRoom st rid = getRoom st' rid"
  by (simp add: getRoom_def hgetall_def)

lemma getRoom_setRoom_other: "rid' \<noteq> rid \<Longrightarrow> getRoom (setRoom st rid r) rid' = getRoom st rid'"
  by (rule getRoom_cong) (simp add: redis_setRoom)

lemma getRoom_setRoom: "getRoom (setRoom st rid r) rid = Inr (Some (stored r))"
proof -
  let ?p = "[(''videoId'', videoId r),
              (''time'', String_num (num_or (time r) (Num 0))),
              (''playing'', if playing r then ''true'' else ''false''),
              (''membersCount'', String_num (num_or (membersCount r) (Num 0))),
              (''moderatorId'', moderatorId r),
              (''queue'', JSON_stringify (queue r))]"
  let ?h = "hset (redis st (ROOM_PREFIX @ rid)) ?p"
  have h: "hgetall (setRoom st rid r) (ROOM_PREFIX @ rid) = ?h"
    by (simp add: hgetall_def redis_setRoom)
  have ne: "?h \<noteq> []" by (rule hset_not_Nil) simp
  have f1: "map_of ?h ''videoId'' = Some (videoId r)"
    and f2: "map_of ?h ''time'' = Some (String_num (num_or (time r) (Num 0)))"
    and f3: "map_of ?h ''playing'' = Some (if playing r then ''true'' else ''false'')"
    and f4: "map_of ?h ''membersCount'' = Some (String_num (num_or (membersCount r) (Num 0)))"
    and f5: "map_of ?h ''moderatorId'' = Some (moderatorId r)"
    and f6: "map_of ?h ''queue'' = Some (JSON_stringify (queue r))"
    by (simp_all add: map_of_hset)
  have q: "(case map_of ?h ''queue'' of None \<Rightarrow> Some []
            | Some q \<Rightarrow> if q = [] then Some [] else JSON_parse q) = Some (queue r)"
    by (simp add: f6 JSON_stringify_not_Nil JSON_parse_stringify)
  have v: "str_or (map_of ?h ''videoId'') [] = videoId r"
    by (simp add: f1)
  have m: "str_or (map_of ?h ''moderatorId'') [] = moderatorId r"
    by (simp add: f5)
  have t: "(case map_of ?h ''time'' of None \<Rightarrow> Num 0
            | Some t \<Rightarrow> if t = [] then Num 0 else Number_str t) = num_or (time r) (Num 0)"
    by (simp add: f2 String_num_not_Nil Number_str_String_num)
  have c: "(case map_of ?h ''membersCount'' of None \<Rightarrow> Num 0
            | Some t \<Rightarrow> if t = [] then Num 0 else Number_str t) = num_or (membersCount r) (Num 0)"
    by (simp add: f4 String_num_not_Nil Number_str_String_num)
  have p: "(map_of ?h ''playing'' = Some ''true'') = playing r"
    by (simp add: f3)
  show ?thesis
    unfolding getRoom_def Let_def h
    by (simp only: ne q v m t c p if_False option.case) (simp add: stored_def)
qed



lemma stored_stored: "stored (stored r) = stored r"
  by (simp add: stored_def num_or_def)


lemma hset_payload_twice:
  "hset (hset h [(''videoId'', a), (''time'', b), (''playing'', c), (''membersCount'', d),
                 (''moderatorId'', e), (''queue'', f)])
        [(''videoId'', a), (''time'', b), (''playing'', c), (''membersCount'', d),
         (''moderatorId'', e), (''queue'', f)] =
   hset h [(''videoId'', a), (''time'', b), (''playing'', c), (''membersCount'', d),
           (''moderatorId'', e), (''queue'', f)]"
proof -
  let ?p = "[(''videoId'', a), (''time'', b), (''playing'', c), (''membersCount'', d),
             (''moderatorId'', e), (''queue'', f)]"
  let ?H = "hset h ?p"
  have m: "map_of ?H ''videoId'' = Some a" "map_of ?H ''time'' = Some b"
    "map_of ?H ''playing'' = Some c" "map_of ?H ''membersCount'' = Some d"
    "map_of ?H ''moderatorId'' = Some e" "map_of ?H ''queue'' = Some f"
    by (simp_all add: map_of_hset)
  have "hset ?H ?p =
        AList.update ''queue'' f (AList.update ''moderatorId'' e (AList.update ''membersCount'' d
          (AList.update ''playing'' c (AList.update ''time'' b (AList.update ''videoId'' a ?H)))))"
    by (simp add: hset_def)
  also have "\<dots> = ?H"
    by (simp only: update_triv m)
  finally show ?thesis .
qed

lemma redis_setRoom_twice:
  "redis (setRoom (setRoom st rid r) rid r) = redis (setRoom st rid r)"
  by (rule ext) (simp add: redis_setRoom hset_payload_twice)

section \<open>Evaluating runs\<close>

lemma getRoom_init: "getRoom init r = Inr None"
  by (simp add: getRoom_def hgetall_def init_def)

lemma getRoom_sockets_update: "getRoom (st\<lparr> sockets := x \<rparr>) r = getRoom st r"
  by (rule getRoom_cong) simp

lemma getRoom_adapter_update: "getRoom (st\<lparr> adapter := x \<rparr>) r = getRoom st r"
  by (rule getRoom_cong) simp

lemma getRoom_socket_join: "getRoom (socket_join st sid rid) r = getRoom st r"
  by (simp add: socket_join_def getRoom_adapter_update)

lemma getRoom_socket_close: "getRoom (socket_close st sid) r = getRoom st r"
  by (simp add: socket_close_def getRoom_adapter_update getRoom_sockets_update)

lemmas handler_defs =
  dispatch_def on_connection_def on_join_room_def on_load_video_def on_play_def on_pause_def
  on_seek_def on_chat_def on_request_sync_def on_disconnect_def finish_def throw_def
  ensureRoomExists_def fetchSockets_def

lemmas state_simps =
  getRoom_setRoom getRoom_setRoom_other getRoom_sockets_update getRoom_adapter_update
  getRoom_socket_join getRoom_socket_close getRoom_init sockets_setRoom adapter_setRoom

lemma sockets_init: "sockets init = (\<lambda>_. None)"
  by (simp add: init_def)

lemma adapter_init: "adapter init = (\<lambda>_. [])"
  by (simp add: init_def)

lemma demo_alice_room:
  "getRoom (run init demo_alice) ''r1'' =
     Inr (Some \<lparr> videoId = [], time = Num 0, playing = False, membersCount = Num 1,
                 moderatorId = ''A'', queue = [] \<rparr>)"
  by (simp add: demo_alice_def handler_defs state_simps Let_def socket_join_def sockets_init
      stored_def num_or_def)

lemma demo_alice_socket:
  "sockets (run init demo_alice) ''A'' = Some \<lparr> data_name = Some ''Alice'', data_roomId = Some ''r1'' \<rparr>"
  by (simp add: demo_alice_def handler_defs state_simps Let_def socket_join_def sockets_init)

lemmas run_simps =
  handler_defs state_simps Let_def socket_join_def socket_close_def sockets_init adapter_init
  stored_def num_or_def

lemma valid_demo_id: "isValidYouTubeId (JString ''dQw4w9WgXcQ'')"
  by (simp add: id_char_def)

lemma invalid_demo_id: "\<not> isValidYouTubeId (JString ''bad'')"
  by simp

lemma run_append: "run st (xs @ ys) = run (run st xs) ys"
  by (induction xs arbitrary: st) auto

lemma run_snoc: "run st (xs @ [(sid, ev)]) = next_state (dispatch (run st xs) sid ev)"
  by (simp add: run_append)

lemma demo_pair_room:
  "getRoom (run init demo_pair) ''r1'' =
     Inr (Some \<lparr> videoId = [], time = Num 0, playing = False, membersCount = Num 2,
                 moderatorId = ''A'', queue = [] \<rparr>)"
  by (simp add: demo_pair_def demo_alice_def run_simps)

lemma demo_pair_socket:
  "sockets (run init demo_pair) ''B'' = Some \<lparr> data_name = Some ''Bob'', data_roomId = Some ''r1'' \<rparr>"
  by (simp add: demo_pair_def demo_alice_def run_simps)

lemma demo_rejoin_room:
  "getRoom (run init demo_rejoin) ''r1'' =
     Inr (Some \<lparr> videoId = [], time = Num 0, playing = False, membersCount = Num 2,
                 moderatorId = ''A'', queue = [] \<rparr>)"
  by (simp add: demo_rejoin_def demo_alice_def run_simps)

lemma demo_rejoin_socket:
  "sockets (run init demo_rejoin) ''A'' = Some \<lparr> data_name = Some ''Alice'', data_roomId = Some ''r1'' \<rparr>"
  by (simp add: demo_rejoin_def demo_alice_def run_simps)

lemma redis_setRoom_stored: "redis (setRoom st rid (stored r)) = redis (setRoom st rid r)"
  by (rule ext) (simp add: redis_setRoom stored_def num_or_def)

lemma num_or_Number_or0: "num_or (Number_or0 t) (Num 0) = Number_or0 t"
  by (cases t) (simp_all add: num_or_def)

section \<open>What each handler does to the state\<close>

lemma bound_room_Some:
  "bound_room st sd = Some (rid, room0) \<longleftrightarrow>
     rid \<noteq> [] \<and> data_roomId sd = Some rid \<and> getRoom st rid = Inr (Some room0)"
  by (cases "data_roomId sd")
     (auto simp: bound_room_def split: sum.splits option.splits)

lemma play_effect:
  "next_state (on_play st sid sd t) =
     (case bound_room st sd of
        None \<Rightarrow> st
      | Some (rid, room0) \<Rightarrow> setRoom st rid (room0\<lparr> time := Number_or0 t, playing := True \<rparr>))"
  by (simp add: on_play_def bound_room_def finish_def throw_def Let_def split: sum.splits option.splits)

lemma pause_effect:
  "next_state (on_pause st sid sd t) =
     (case bound_room st sd of
        None \<Rightarrow> st
      | Some (rid, room0) \<Rightarrow> setRoom st rid (room0\<lparr> time := Number_or0 t, playing := False \<rparr>))"
  by (simp add: on_pause_def bound_room_def finish_def throw_def Let_def split: sum.splits option.splits)

lemma seek_effect:
  "next_state (on_seek st sid sd t) =
     (case bound_room st sd of
        None \<Rightarrow> st
      | Some (rid, room0) \<Rightarrow> setRoom st rid (room0\<lparr> time := Number_or0 t \<rparr>))"
  by (simp add: on_seek_def bound_room_def finish_def throw_def Let_def split: sum.splits option.splits)

lemma load_video_effect:
  "next_state (on_load_video st sid sd vid) =
     (case bound_room st sd of
        None \<Rightarrow> st
      | Some (rid, room0) \<Rightarrow>
          (case vid of
             JString v \<Rightarrow>
               if (moderatorId room0 = [] \<or> sid = moderatorId room0) \<and> isValidYouTubeId vid
               then setRoom st rid (room0\<lparr> videoId := v, time := Num 0, playing := False \<rparr>)
               else st
           | _ \<Rightarrow> st))"
  by (cases vid)
     (auto simp: on_load_video_def bound_room_def finish_def throw_def Let_def
        split: sum.splits option.splits)

lemma chat_effect: "next_state (on_chat st sid sd x) = st"
  by (simp add: on_chat_def finish_def Let_def)

lemma request_sync_effect: "next_state (on_request_sync st sid sd) = st"
  by (simp add: on_request_sync_def finish_def throw_def Let_def split: sum.splits option.splits)

lemma bound_room_socket_close: "bound_room (socket_close st sid) sd = bound_room st sd"
  by (simp add: bound_room_def getRoom_socket_close)

lemma adapter_socket_close: "adapter (socket_close st sid) r = removeAll sid (adapter st r)"
  by (simp add: socket_close_def)

lemma sockets_socket_close: "sockets (socket_close st sid) = (sockets st)(sid := None)"
  by (simp add: socket_close_def)

lemma disconnect_effect:
  "next_state (on_disconnect st sid sd) =
     (case bound_room st sd of
        None \<Rightarrow> socket_close st sid
      | Some (rid, room0) \<Rightarrow>
          setRoom (socket_close st sid) rid
            (leave_update sid (removeAll sid (adapter st rid)) room0))"
  by (simp add: on_disconnect_def bound_room_def finish_def throw_def Let_def fetchSockets_def
      getRoom_socket_close adapter_socket_close leave_update_def
      split: sum.splits option.splits)

lemma connection_effect:
  "next_state (on_connection st sid) =
     (if sid = [] \<or> sockets st sid \<noteq> None then st
      else socket_join
             (st\<lparr> sockets := (sockets st)(sid \<mapsto> \<lparr> data_name = None, data_roomId = None \<rparr>) \<rparr>)
             sid sid)"
  by (simp add: on_connection_def finish_def)

lemma sockets_socket_join: "sockets (socket_join st sid rid) = sockets st"
  by (simp add: socket_join_def)

lemma getRoom_join_bind: "getRoom (join_bind st sid rid name) r = getRoom st r"
  by (simp add: join_bind_def getRoom_sockets_update getRoom_socket_join)

lemma join_room_effect:
  "next_state (on_join_room st sid ro nm rnd) =
     (if str_or ro [] = [] then st
      else case getRoom st (str_or ro []) of
             Inl e \<Rightarrow> join_bind st sid (str_or ro []) (join_name nm rnd)
           | Inr None \<Rightarrow>
               setRoom (setRoom (join_bind st sid (str_or ro []) (join_name nm rnd))
                          (str_or ro []) (new_room sid))
                 (str_or ro []) (join_update sid (new_room sid))
           | Inr (Some room0) \<Rightarrow>
               setRoom (join_bind st sid (str_or ro []) (join_name nm rnd))
                 (str_or ro []) (join_update sid room0))"
  by (simp add: on_join_room_def ensureRoomExists_def finish_def throw_def Let_def
      sockets_socket_join getRoom_sockets_update getRoom_socket_join
      join_bind_def join_name_def join_update_def new_room_def
      split: sum.splits option.splits)

lemma dispatch_effect:
  "next_state (dispatch st sid ev) =
     (case ev of
        Connection \<Rightarrow> next_state (on_connection st sid)
      | _ \<Rightarrow>
        (case sockets st sid of
           None \<Rightarrow> st
         | Some sd \<Rightarrow>
             (case ev of
                Connection \<Rightarrow> st
              | Join_room r n rnd \<Rightarrow> next_state (on_join_room st sid r n rnd)
              | Load_video v \<Rightarrow> next_state (on_load_video st sid sd v)
              | Play t \<Rightarrow> next_state (on_play st sid sd t)
              | Pause t \<Rightarrow> next_state (on_pause st sid sd t)
              | Seek t \<Rightarrow> next_state (on_seek st sid sd t)
              | Chat x \<Rightarrow> st
              | Request_sync \<Rightarrow> st
              | Disconnect \<Rightarrow> next_state (on_disconnect st sid sd))))"
  by (simp add: dispatch_def finish_def chat_effect request_sync_effect
      split: event.splits option.splits)

lemma getRoom_setRoom_fun:
  "getRoom (setRoom st rid room1) = (getRoom st)(rid := Inr (Some (stored room1)))"
  by (rule ext) (simp add: getRoom_setRoom getRoom_setRoom_other)

lemma getRoom_join_bind_fun: "getRoom (join_bind st sid rid name) = getRoom st"
  by (rule ext) (rule getRoom_join_bind)

lemma getRoom_socket_close_fun: "getRoom (socket_close st sid) = getRoom st"
  by (rule ext) (rule getRoom_socket_close)

lemma sockets_join_bind:
  "sockets (join_bind st sid rid name) =
     (sockets st)(sid \<mapsto> \<lparr> data_name = Some name, data_roomId = Some rid \<rparr>)"
  by (simp add: join_bind_def)

lemma adapter_join_bind:
  "adapter (join_bind st sid rid name) =
     (adapter st)(rid := (if sid \<in> set (adapter st rid) then adapter st rid
                          else adapter st rid @ [sid]))"
  by (simp add: join_bind_def socket_join_def)

lemma adapter_socket_close_fun:
  "adapter (socket_close st sid) = (\<lambda>r. removeAll sid (adapter st r))"
  by (simp add: socket_close_def)

lemma dispatch_sockets:
  "sockets (next_state (dispatch st sid ev)) =
     (case ev of
        Connection \<Rightarrow>
          if sid = [] \<or> sockets st sid \<noteq> None then sockets st
          else (sockets st)(sid \<mapsto> \<lparr> data_name = None, data_roomId = None \<rparr>)
      | Join_room ro nm rnd \<Rightarrow>
          if sockets st sid = None \<or> str_or ro [] = [] then sockets st
          else (sockets st)(sid \<mapsto>
                 \<lparr> data_name = Some (join_name nm rnd), data_roomId = Some (str_or ro []) \<rparr>)
      | Disconnect \<Rightarrow> (sockets st)(sid := None)
      | _ \<Rightarrow> sockets st)"
  by (cases ev)
     (auto simp: dispatch_effect connection_effect join_room_effect load_video_effect play_effect
        pause_effect seek_effect disconnect_effect sockets_setRoom sockets_join_bind
        sockets_socket_close sockets_socket_join
        split: option.splits sum.splits jsval.splits)

lemma dispatch_adapter:
  "adapter (next_state (dispatch st sid ev)) =
     (case ev of
        Connection \<Rightarrow>
          if sid = [] \<or> sockets st sid \<noteq> None then adapter st
          else (adapter st)(sid := (if sid \<in> set (adapter st sid) then adapter st sid
                                    else adapter st sid @ [sid]))
      | Join_room ro nm rnd \<Rightarrow>
          if sockets st sid = None \<or> str_or ro [] = [] then adapter st
          else (adapter st)(str_or ro [] :=
                 (if sid \<in> set (adapter st (str_or ro [])) then adapter st (str_or ro [])
                  else adapter st (str_or ro []) @ [sid]))
      | Disconnect \<Rightarrow>
          if sockets st sid = None then adapter st else (\<lambda>r. removeAll sid (adapter st r))
      | _ \<Rightarrow> adapter st)"
  by (cases ev)
     (auto simp: dispatch_effect connection_effect join_room_effect load_video_effect play_effect
        pause_effect seek_effect disconnect_effect adapter_setRoom adapter_join_bind
        adapter_socket_close_fun socket_join_def
        split: option.splits sum.splits jsval.splits)

lemma num_or_add_one:
  "num_or (num_add (num_or c (Num 0)) (Num 1)) (Num 0) = num_add (num_or c (Num 0)) (Num 1)"
  by (cases c) (auto simp: num_or_def)

lemma membersCount_join_update:
  "membersCount (stored (join_update sid room0)) =
     num_add (num_or (membersCount room0) (Num 0)) (Num 1)"
  by (simp add: stored_def join_update_def Let_def num_or_add_one)

lemma pause_step:
  "sockets st sid = Some sd \<Longrightarrow> bound_room st sd = Some (rid, room0) \<Longrightarrow>
     next_state (dispatch st sid (Pause t)) =
       setRoom st rid (room0\<lparr> time := Number_or0 t, playing := False \<rparr>)"
  by (simp add: dispatch_effect pause_effect)

lemma join_room_other_rooms:
  "r \<noteq> str_or ro [] \<Longrightarrow>
     getRoom (next_state (on_join_room st sid ro nm rnd)) r = getRoom st r"
  by (simp add: join_room_effect getRoom_setRoom_other getRoom_join_bind
      split: sum.splits option.splits)

section \<open>More of the example runs\<close>

lemma demo_nomod_room:
  "getRoom demo_nomod ''r1'' =
     Inr (Some \<lparr> videoId = [], time = Num 0, playing = False, membersCount = Num 1,
                 moderatorId = [], queue = [] \<rparr>)"
  by (simp add: demo_nomod_def getRoom_setRoom stored_def num_or_def)

lemma demo_nomod_socket:
  "sockets demo_nomod ''A'' = Some \<lparr> data_name = Some ''Alice'', data_roomId = Some ''r1'' \<rparr>"
  by (simp add: demo_nomod_def sockets_setRoom demo_alice_socket)

lemma demo_pair_socket_A:
  "sockets (run init demo_pair) ''A'' = Some \<lparr> data_name = Some ''Alice'', data_roomId = Some ''r1'' \<rparr>"
  by (simp add: demo_pair_def demo_alice_def run_simps)

lemma demo_pair_adapter: "adapter (run init demo_pair) ''r1'' = [''A'', ''B'']"
  by (simp add: demo_pair_def demo_alice_def run_simps)

lemma demo_pair_leave_room:
  "getRoom (next_state (dispatch (run init demo_pair) ''A'' Disconnect)) ''r1'' =
     Inr (Some \<lparr> videoId = [], time = Num 0, playing = False, membersCount = Num 1,
                 moderatorId = ''B'', queue = [] \<rparr>)"
  using demo_pair_socket_A demo_pair_room demo_pair_adapter
  by (simp add: dispatch_effect disconnect_effect bound_room_def getRoom_setRoom
      leave_update_def stored_def num_or_def Let_def)

lemma demo_pair_leave_socket:
  "sockets (next_state (dispatch (run init demo_pair) ''A'' Disconnect)) ''B'' =
     Some \<lparr> data_name = Some ''Bob'', data_roomId = Some ''r1'' \<rparr>"
  using demo_pair_socket_A demo_pair_room demo_pair_socket
  by (simp add: dispatch_effect disconnect_effect bound_room_def sockets_setRoom
      sockets_socket_close)

lemma demo_rejoin_adapter: "adapter (run init demo_rejoin) ''r1'' = [''A'']"
  by (simp add: demo_rejoin_def demo_alice_def run_simps)

lemma demo_rejoin_leave_room:
  "getRoom (next_state (dispatch (run init demo_rejoin) ''A'' Disconnect)) ''r1'' =
     Inr (Some \<lparr> videoId = [], time = Num 0, playing = False, membersCount = Num 1,
                 moderatorId = [], queue = [] \<rparr>)"
  using demo_rejoin_socket demo_rejoin_room demo_rejoin_adapter
  by (simp add: dispatch_effect disconnect_effect bound_room_def getRoom_setRoom
      leave_update_def stored_def num_or_def Let_def)

lemma demo_rejoin_leave_socket:
  "sockets (next_state (dispatch (run init demo_rejoin) ''A'' Disconnect)) ''A'' = None"
  by (simp add: dispatch_sockets)

section \<open>Loading a video\<close>

text \<open>
  C2: a load-video that passes both checks (the actor is the moderator or the room has
  none, and the id is a valid YouTube id) stores the given id with time 0 and playing
  false, whatever the room held before, and sends load-video with that id to the room.
\<close>

theorem load_video_success:
  assumes "sockets st sid = Some sd" and "data_roomId sd = Some rid" and "rid \<noteq> []"
    and "getRoom st rid = Inr (Some room0)"
    and "moderatorId room0 = [] \<or> moderatorId room0 = sid"
    and "isValidYouTubeId vid"
  shows "\<exists>v. vid = JString v \<and>
           getRoom (next_state (dispatch st sid (Load_video vid))) rid =
             Inr (Some (stored (room0\<lparr> videoId := v, time := Num 0, playing := False \<rparr>))) \<and>
           videoId (stored (room0\<lparr> videoId := v, time := Num 0, playing := False \<rparr>)) = v \<and>
           time (stored (room0\<lparr> videoId := v, time := Num 0, playing := False \<rparr>)) = Num 0 \<and>
           playing (stored (room0\<lparr> videoId := v, time := Num 0, playing := False \<rparr>)) = False \<and>
           emitted (dispatch st sid (Load_video vid)) = [(To_room rid, Msg_load_video v)]"
proof -
  obtain v where v: "vid = JString v" using assms(6) by (cases vid) simp_all
  have auth: "\<not> (moderatorId room0 \<noteq> [] \<and> sid \<noteq> moderatorId room0)" using assms(5) by auto
  have d: "dispatch st sid (Load_video vid) =
           finish (setRoom st rid (room0\<lparr> videoId := v, time := Num 0, playing := False \<rparr>))
             [(To_room rid, Msg_load_video v)]"
    using assms(1-4,6) auth v
    by (auto simp: dispatch_def on_load_video_def Let_def)
  show ?thesis
    by (rule exI [of _ v])
       (simp add: v [symmetric] d finish_def getRoom_setRoom, simp add: stored_def num_or_def)
qed

text \<open>The moderator Alice loads a video into the room she has just created.\<close>

theorem load_video_success_witness:
  "sockets (run init demo_alice) ''A'' = Some \<lparr> data_name = Some ''Alice'', data_roomId = Some ''r1'' \<rparr> \<and>
   getRoom (run init demo_alice) ''r1'' =
     Inr (Some \<lparr> videoId = [], time = Num 0, playing = False, membersCount = Num 1,
                 moderatorId = ''A'', queue = [] \<rparr>) \<and>
   isValidYouTubeId (JString ''dQw4w9WgXcQ'') \<and>
   getRoom (next_state (dispatch (run init demo_alice) ''A'' (Load_video (JString ''dQw4w9WgXcQ'')))) ''r1'' =
     Inr (Some \<lparr> videoId = ''dQw4w9WgXcQ'', time = Num 0, playing = False, membersCount = Num 1,
                 moderatorId = ''A'', queue = [] \<rparr>) \<and>
   emitted (dispatch (run init demo_alice) ''A'' (Load_video (JString ''dQw4w9WgXcQ''))) =
     [(To_room ''r1'', Msg_load_video ''dQw4w9WgXcQ'')]"
  using load_video_success [OF demo_alice_socket _ _ demo_alice_room _ valid_demo_id]
    demo_alice_socket demo_alice_room valid_demo_id
  by (simp add: stored_def num_or_def)

text \<open>
  C5: a load-video whose id is not a valid YouTube id never changes the state. The actor
  gets an error message, and nothing else is sent, when the actor is bound to a room that
  has a record; the message is the moderator-only one when the actor fails that check
  first.
\<close>

theorem load_video_malformed:
  assumes "\<not> isValidYouTubeId vid"
  shows "next_state (dispatch st sid (Load_video vid)) = st \<and>
         (\<forall>sd rid room0.
            sockets st sid = Some sd \<and> data_roomId sd = Some rid \<and> rid \<noteq> [] \<and>
            getRoom st rid = Inr (Some room0) \<longrightarrow>
            emitted (dispatch st sid (Load_video vid)) =
              [(To_socket sid, Msg_error
                 (if moderatorId room0 \<noteq> [] \<and> sid \<noteq> moderatorId room0
                  then ''Only moderator can load video'' else ''Invalid YouTube id''))])"
  using assms
  by (auto simp: dispatch_def on_load_video_def finish_def throw_def Let_def
      split: option.splits sum.splits)

text \<open>Alice, bound to r1 and its moderator, sends a malformed id.\<close>

theorem load_video_malformed_witness:
  "\<not> isValidYouTubeId (JString ''bad'') \<and>
   sockets (run init demo_alice) ''A'' =
     Some \<lparr> data_name = Some ''Alice'', data_roomId = Some ''r1'' \<rparr> \<and>
   getRoom (run init demo_alice) ''r1'' =
     Inr (Some \<lparr> videoId = [], time = Num 0, playing = False, membersCount = Num 1,
                 moderatorId = ''A'', queue = [] \<rparr>) \<and>
   next_state (dispatch (run init demo_alice) ''A'' (Load_video (JString ''bad''))) =
     run init demo_alice \<and>
   emitted (dispatch (run init demo_alice) ''A'' (Load_video (JString ''bad''))) =
     [(To_socket ''A'', Msg_error ''Invalid YouTube id'')]"
  using load_video_malformed [OF invalid_demo_id, of "run init demo_alice" "''A''"]
    demo_alice_socket demo_alice_room invalid_demo_id
  by simp

text \<open>
  A socket that has not joined a room gets no error for a malformed id: the handler
  returns at \<open>if (!roomId) return\<close>.
\<close>

theorem load_video_unbound_counterexample:
  "\<not> isValidYouTubeId (JString ''bad'') \<and>
   sockets (run init [(''A'', Connection)]) ''A'' =
     Some \<lparr> data_name = None, data_roomId = None \<rparr> \<and>
   emitted (dispatch (run init [(''A'', Connection)]) ''A'' (Load_video (JString ''bad''))) = []"
  by (simp add: run_simps)

section \<open>Chat\<close>

text \<open>
  C6: a chat event whose text is missing or empty is dropped: nothing is sent, neither
  an error to the actor nor a chat message to the room, and the state is unchanged.
\<close>

theorem chat_empty_silent:
  "str_or x [] = [] \<Longrightarrow>
     next_state (dispatch st sid (Chat x)) = st \<and> emitted (dispatch st sid (Chat x)) = []"
  by (simp add: dispatch_def on_chat_def finish_def split: option.splits)

text \<open>Bob, bound to r1, sends an empty text.\<close>

theorem chat_empty_silent_witness:
  "str_or (Some []) [] = [] \<and>
   next_state (dispatch (run init demo_pair) ''B'' (Chat (Some []))) = run init demo_pair \<and>
   emitted (dispatch (run init demo_pair) ''B'' (Chat (Some []))) = []"
  using chat_empty_silent [of "Some []" "run init demo_pair" "''B''"]
  by simp

text \<open>Alice is bound to r1 and sends an empty text: no error message reaches her.\<close>

theorem chat_empty_counterexample:
  "sockets (run init demo_alice) ''A'' =
     Some \<lparr> data_name = Some ''Alice'', data_roomId = Some ''r1'' \<rparr> \<and>
   emitted (dispatch (run init demo_alice) ''A'' (Chat (Some []))) = []"
  using demo_alice_socket
  by (simp add: dispatch_def on_chat_def finish_def)

section \<open>Joining a room\<close>

text \<open>
  C7: join-room without a room id is rejected with an error and changes nothing. With a
  room id it binds the socket to that room and adds one to the room's member count,
  whether or not the socket was bound before: the last join wins, and every join counts.
  No other room's record changes, so a room the socket was bound to before keeps its
  count.
\<close>

theorem join_room_rebinds:
  assumes "sockets st sid = Some sd"
  shows "(str_or ro [] = [] \<longrightarrow>
            next_state (dispatch st sid (Join_room ro nm rnd)) = st \<and>
            emitted (dispatch st sid (Join_room ro nm rnd)) =
              [(To_socket sid, Msg_error ''roomId required'')]) \<and>
         (str_or ro [] \<noteq> [] \<and> getRoom st (str_or ro []) = Inr prev \<longrightarrow>
            sockets (next_state (dispatch st sid (Join_room ro nm rnd))) sid =
              Some \<lparr> data_name = Some (join_name nm rnd), data_roomId = Some (str_or ro []) \<rparr> \<and>
            (\<exists>room1. getRoom (next_state (dispatch st sid (Join_room ro nm rnd))) (str_or ro []) =
               Inr (Some room1) \<and>
               membersCount room1 =
                 num_add (num_or (case prev of None \<Rightarrow> Num 0 | Some room0 \<Rightarrow> membersCount room0)
                            (Num 0)) (Num 1))) \<and>
         (\<forall>r. r \<noteq> str_or ro [] \<longrightarrow>
            getRoom (next_state (dispatch st sid (Join_room ro nm rnd))) r = getRoom st r)"
proof -
  have st': "next_state (dispatch st sid (Join_room ro nm rnd)) =
             next_state (on_join_room st sid ro nm rnd)"
    using assms by (simp add: dispatch_effect)
  have others: "\<forall>r. r \<noteq> str_or ro [] \<longrightarrow>
            getRoom (next_state (dispatch st sid (Join_room ro nm rnd))) r = getRoom st r"
    by (simp add: st' join_room_other_rooms)
  show ?thesis
  proof (cases "str_or ro [] = []")
    case True
    then show ?thesis using assms others
      by (simp add: dispatch_def on_join_room_def finish_def)
  next
    case False
    show ?thesis
    proof (cases prev)
      case None
      then show ?thesis using False others
        by (simp add: st' join_room_effect sockets_setRoom sockets_join_bind getRoom_setRoom
            membersCount_join_update new_room_def)
    next
      case (Some room0)
      then show ?thesis using False others
        by (simp add: st' join_room_effect sockets_setRoom sockets_join_bind getRoom_setRoom
            membersCount_join_update)
    qed
  qed
qed

text \<open>Alice, already in r1, joins r1 again under another name.\<close>

theorem join_room_rebinds_witness:
  "sockets (run init demo_alice) ''A'' =
     Some \<lparr> data_name = Some ''Alice'', data_roomId = Some ''r1'' \<rparr> \<and>
   getRoom (run init demo_alice) ''r1'' =
     Inr (Some \<lparr> videoId = [], time = Num 0, playing = False, membersCount = Num 1,
                 moderatorId = ''A'', queue = [] \<rparr>) \<and>
   sockets (next_state (dispatch (run init demo_alice) ''A''
              (Join_room (Some ''r1'') (Some ''Al'') 0))) ''A'' =
      Some \<lparr> data_name = Some ''Al'', data_roomId = Some ''r1'' \<rparr> \<and>
   (\<exists>room1. getRoom (next_state (dispatch (run init demo_alice) ''A''
                (Join_room (Some ''r1'') (Some ''Al'') 0))) ''r1'' = Inr (Some room1) \<and>
      membersCount room1 = Num 2)"
  using join_room_rebinds [OF demo_alice_socket,
      where ro = "Some ''r1''" and nm = "Some ''Al''" and rnd = 0
        and prev = "Some \<lparr> videoId = [], time = Num 0, playing = False, membersCount = Num 1,
                 moderatorId = ''A'', queue = [] \<rparr>"]
    demo_alice_socket demo_alice_room
  by (simp add: num_or_def join_name_def)

text \<open>
  After her first join Alice is bound to r1, which counts one member. A second join to
  r2 rebinds her to r2; a second join to r1 makes r1 count two members.
\<close>

theorem join_room_twice_counterexample:
  "sockets (run init demo_alice) ''A'' =
     Some \<lparr> data_name = Some ''Alice'', data_roomId = Some ''r1'' \<rparr> \<and>
   getRoom (run init demo_alice) ''r1'' =
     Inr (Some \<lparr> videoId = [], time = Num 0, playing = False, membersCount = Num 1,
                 moderatorId = ''A'', queue = [] \<rparr>) \<and>
   sockets (run init (demo_alice @ [(''A'', Join_room (Some ''r2'') (Some ''Alice'') 0)])) ''A'' =
     Some \<lparr> data_name = Some ''Alice'', data_roomId = Some ''r2'' \<rparr> \<and>
   getRoom (run init (demo_alice @ [(''A'', Join_room (Some ''r1'') (Some ''Alice'') 0)])) ''r1'' =
     Inr (Some \<lparr> videoId = [], time = Num 0, playing = False, membersCount = Num 2,
                 moderatorId = ''A'', queue = [] \<rparr>)"
  using demo_alice_socket demo_alice_room demo_rejoin_room
  by (simp add: demo_rejoin_def demo_alice_def run_simps)

section \<open>Pause\<close>

lemma pause_again:
  assumes sd: "sockets st sid = Some sd"
    and rid: "str_or (data_roomId sd) [] = rid" "rid \<noteq> []"
    and room: "getRoom st rid = Inr (Some room0)"
  shows "next_state (dispatch st sid (Pause t)) =
           setRoom st rid (room0\<lparr> time := Number_or0 t, playing := False \<rparr>)"
    and "redis (next_state (dispatch (next_state (dispatch st sid (Pause t))) sid (Pause t))) =
           redis (next_state (dispatch st sid (Pause t)))"
    and "sockets (next_state (dispatch (next_state (dispatch st sid (Pause t))) sid (Pause t))) =
           sockets (next_state (dispatch st sid (Pause t)))"
    and "adapter (next_state (dispatch (next_state (dispatch st sid (Pause t))) sid (Pause t))) =
           adapter (next_state (dispatch st sid (Pause t)))"
proof -
  let ?room1 = "room0\<lparr> time := Number_or0 t, playing := False \<rparr>"
  let ?s1 = "setRoom st rid ?room1"
  show s1: "next_state (dispatch st sid (Pause t)) = ?s1"
    using sd rid room by (simp add: dispatch_def on_pause_def finish_def Let_def)
  have sd1: "sockets ?s1 sid = Some sd" using sd by (simp add: sockets_setRoom)
  have room1: "getRoom ?s1 rid = Inr (Some (stored ?room1))" by (rule getRoom_setRoom)
  have again: "(stored ?room1)\<lparr> time := Number_or0 t, playing := False \<rparr> = stored ?room1"
    by (simp add: stored_def num_or_Number_or0)
  have s2: "next_state (dispatch ?s1 sid (Pause t)) = setRoom ?s1 rid (stored ?room1)"
    using sd1 rid room1 by (simp add: dispatch_def on_pause_def finish_def Let_def again)
  show "redis (next_state (dispatch (next_state (dispatch st sid (Pause t))) sid (Pause t))) =
           redis (next_state (dispatch st sid (Pause t)))"
    by (simp only: s1 s2 redis_setRoom_stored redis_setRoom_twice)
  show "sockets (next_state (dispatch (next_state (dispatch st sid (Pause t))) sid (Pause t))) =
           sockets (next_state (dispatch st sid (Pause t)))"
    by (simp only: s1 s2 sockets_setRoom)
  show "adapter (next_state (dispatch (next_state (dispatch st sid (Pause t))) sid (Pause t))) =
           adapter (next_state (dispatch st sid (Pause t)))"
    by (simp only: s1 s2 adapter_setRoom)
qed

lemma pause_noop:
  assumes "sockets st sid = None \<or>
           (\<exists>sd. sockets st sid = Some sd \<and>
              (str_or (data_roomId sd) [] = [] \<or>
               getRoom st (str_or (data_roomId sd) []) = Inr None \<or>
               getRoom st (str_or (data_roomId sd) []) = Inl SyntaxError))"
  shows "next_state (dispatch st sid (Pause t)) = st"
  using assms
  by (auto simp: dispatch_def on_pause_def finish_def throw_def Let_def)

lemma pause_twice:
  "redis (next_state (dispatch (next_state (dispatch st sid (Pause t))) sid (Pause t))) =
     redis (next_state (dispatch st sid (Pause t))) \<and>
   sockets (next_state (dispatch (next_state (dispatch st sid (Pause t))) sid (Pause t))) =
     sockets (next_state (dispatch st sid (Pause t))) \<and>
   adapter (next_state (dispatch (next_state (dispatch st sid (Pause t))) sid (Pause t))) =
     adapter (next_state (dispatch st sid (Pause t)))"
proof (cases "sockets st sid")
  case None
  then have "next_state (dispatch st sid (Pause t)) = st" by (simp add: pause_noop)
  then show ?thesis by simp
next
  case (Some sd)
  show ?thesis
  proof (cases "str_or (data_roomId sd) [] = []")
    case True
    then have "next_state (dispatch st sid (Pause t)) = st" using Some by (simp add: pause_noop)
    then show ?thesis by simp
  next
    case False
    show ?thesis
    proof (cases "getRoom st (str_or (data_roomId sd) [])")
      case (Inl e)
      then have "getRoom st (str_or (data_roomId sd) []) = Inl SyntaxError" by (cases e) simp
      then have "next_state (dispatch st sid (Pause t)) = st" using Some by (simp add: pause_noop)
      then show ?thesis by simp
    next
      case (Inr ro)
      show ?thesis
      proof (cases ro)
        case None
        then have "next_state (dispatch st sid (Pause t)) = st"
          using Some Inr by (simp add: pause_noop)
        then show ?thesis by simp
      next
        case (Some room0)
        then have "getRoom st (str_or (data_roomId sd) []) = Inr (Some room0)" using Inr by simp
        from pause_again(2-4) [OF \<open>sockets st sid = Some sd\<close> refl False this]
        show ?thesis by blast
      qed
    qed
  qed
qed

text \<open>
  C9: two consecutive pause events of the same socket with the same time leave the
  stored rooms, the sockets and the adapter exactly as one pause does, from every state
  and for every time: a whole or fractional number of seconds, none, NaN or an infinity.
\<close>

theorem pause_idempotent:
  "redis (next_state (dispatch (next_state (dispatch st sid (Pause t))) sid (Pause t))) =
     redis (next_state (dispatch st sid (Pause t))) \<and>
   sockets (next_state (dispatch (next_state (dispatch st sid (Pause t))) sid (Pause t))) =
     sockets (next_state (dispatch st sid (Pause t))) \<and>
   adapter (next_state (dispatch (next_state (dispatch st sid (Pause t))) sid (Pause t))) =
     adapter (next_state (dispatch st sid (Pause t)))"
  by (rule pause_twice)

section \<open>What holds of the rooms in every run\<close>

lemma rooms_all_init: "rooms_all P init"
  by (simp add: rooms_all_def getRoom_init)

lemma rooms_all_same_rooms:
  "rooms_all P st \<Longrightarrow> (\<And>r. getRoom st' r = getRoom st r) \<Longrightarrow> rooms_all P st'"
  by (simp add: rooms_all_def)

lemma rooms_all_setRoom:
  assumes "rooms_all P st" and "P (stored room1)"
  shows "rooms_all P (setRoom st rid room1)"
  unfolding rooms_all_def
proof
  fix r
  show "case getRoom (setRoom st rid room1) r of
          Inl e \<Rightarrow> False
        | Inr None \<Rightarrow> True
        | Inr (Some room0) \<Rightarrow> P room0"
  proof (cases "r = rid")
    case True
    then show ?thesis using assms(2) by (simp add: getRoom_setRoom)
  next
    case False
    then show ?thesis using assms(1) by (simp add: getRoom_setRoom_other rooms_all_def)
  qed
qed

lemma rooms_all_room: "rooms_all P st \<Longrightarrow> getRoom st rid = Inr (Some room0) \<Longrightarrow> P room0"
  unfolding rooms_all_def by (drule spec [of _ rid]) simp

lemma rooms_all_not_Inl: "rooms_all P st \<Longrightarrow> getRoom st rid \<noteq> Inl e"
  unfolding rooms_all_def by (drule spec [of _ rid]) auto

lemma rooms_all_join_bind: "rooms_all P st \<Longrightarrow> rooms_all P (join_bind st sid rid name)"
  by (erule rooms_all_same_rooms) (simp add: getRoom_join_bind)

lemma rooms_all_socket_close: "rooms_all P st \<Longrightarrow> rooms_all P (socket_close st sid)"
  by (erule rooms_all_same_rooms) (simp add: getRoom_socket_close)

lemma rooms_all_dispatch:
  assumes ok: "rooms_all P st"
    and new: "P (stored (new_room sid))" "P (stored (join_update sid (new_room sid)))"
    and join: "\<And>room0. P room0 \<Longrightarrow> P (stored (join_update sid room0))"
    and leave: "\<And>room0 rem. P room0 \<Longrightarrow> P (stored (leave_update sid rem room0))"
    and load: "\<And>room0 v. P room0 \<Longrightarrow>
                 P (stored (room0\<lparr> videoId := v, time := Num 0, playing := False \<rparr>))"
    and tm: "\<And>room0 b. P room0 \<Longrightarrow>
               P (stored (room0\<lparr> time := Number_or0 (event_time ev), playing := b \<rparr>))"
  shows "rooms_all P (next_state (dispatch st sid ev))"
proof (cases "sockets st sid")
  case None
  show ?thesis
  proof (cases "ev = Connection")
    case True
    have "rooms_all P (socket_join (st\<lparr> sockets := x \<rparr>) sid sid)" for x
      by (rule rooms_all_same_rooms [OF ok]) (simp add: getRoom_socket_join getRoom_sockets_update)
    then show ?thesis using True ok by (simp add: dispatch_effect connection_effect)
  next
    case False
    then show ?thesis using None ok by (cases ev) (simp_all add: dispatch_effect)
  qed
next
  case (Some sd)
  have bound: "P room0" if "bound_room st sd = Some (rid, room0)" for rid room0
    using that rooms_all_room [OF ok] by (auto simp: bound_room_Some)
  show ?thesis
  proof (cases ev)
    case Connection
    then show ?thesis using Some ok by (simp add: dispatch_effect connection_effect)
  next
    case (Join_room ro nm rnd)
    have a: "rooms_all P (setRoom (setRoom (join_bind st sid rid name) rid (new_room sid)) rid
                     (join_update sid (new_room sid)))" for rid name
      by (intro rooms_all_setRoom rooms_all_join_bind ok new)
    have b: "rooms_all P (setRoom (join_bind st sid rid name) rid (join_update sid room0))"
      if "getRoom st rid = Inr (Some room0)" for rid name room0
      by (intro rooms_all_setRoom rooms_all_join_bind ok join rooms_all_room [OF ok that])
    show ?thesis using Some Join_room ok a b rooms_all_not_Inl [OF ok]
      by (auto simp: dispatch_effect join_room_effect split: sum.splits option.splits)
  next
    case (Load_video vid)
    have "rooms_all P (setRoom st rid (room0\<lparr> videoId := v, time := Num 0, playing := False \<rparr>))"
      if "bound_room st sd = Some (rid, room0)" for rid room0 v
      by (intro rooms_all_setRoom ok load bound [OF that])
    then show ?thesis using Some Load_video ok
      by (auto simp: dispatch_effect load_video_effect split: option.splits jsval.splits)
  next
    case (Play t)
    have "rooms_all P (setRoom st rid (room0\<lparr> time := Number_or0 t, playing := True \<rparr>))"
      if "bound_room st sd = Some (rid, room0)" for rid room0
      using tm [OF bound [OF that], of True] Play by (intro rooms_all_setRoom ok) simp
    then show ?thesis using Some Play ok
      by (auto simp: dispatch_effect play_effect split: option.splits)
  next
    case (Pause t)
    have "rooms_all P (setRoom st rid (room0\<lparr> time := Number_or0 t, playing := False \<rparr>))"
      if "bound_room st sd = Some (rid, room0)" for rid room0
      using tm [OF bound [OF that], of False] Pause by (intro rooms_all_setRoom ok) simp
    then show ?thesis using Some Pause ok
      by (auto simp: dispatch_effect pause_effect split: option.splits)
  next
    case (Seek t)
    have "rooms_all P (setRoom st rid (room0\<lparr> time := Number_or0 t \<rparr>))"
      if "bound_room st sd = Some (rid, room0)" for rid room0
      using tm [OF bound [OF that], of "playing room0"] Seek by (intro rooms_all_setRoom ok) simp
    then show ?thesis using Some Seek ok
      by (auto simp: dispatch_effect seek_effect split: option.splits)
  next
    case (Chat x)
    then show ?thesis using Some ok by (simp add: dispatch_effect)
  next
    case Request_sync
    then show ?thesis using Some ok by (simp add: dispatch_effect)
  next
    case Disconnect
    have "rooms_all P (setRoom (socket_close st sid) rid (leave_update sid rem room0))"
      if "bound_room st sd = Some (rid, room0)" for rid room0 rem
      by (intro rooms_all_setRoom rooms_all_socket_close ok leave bound [OF that])
    then show ?thesis using Some Disconnect rooms_all_socket_close [OF ok]
      by (auto simp: dispatch_effect disconnect_effect split: option.splits)
  qed
qed

lemma nonneg_num_iff: "nonneg_num x \<longleftrightarrow> (\<exists>n. x = Num n \<and> 0 \<le> n)"
  by (cases x) (simp_all add: nonneg_num_def)

lemma nonneg_num_or: "nonneg_num x \<Longrightarrow> nonneg_num (num_or x (Num 0))"
  by (cases x) (simp_all add: nonneg_num_def num_or_def)

lemma is_integer_of_nat: "is_integer (of_nat n)"
  by (simp add: is_integer_iff rat_of_nat)

lemma is_integer_0: "is_integer 0"
  by (simp add: is_integer_iff zero_decimal.rep_eq)


lemma natural_num_iff: "natural_num x \<longleftrightarrow> (\<exists>n :: nat. x = Num (of_nat n))"
proof
  assume "natural_num x"
  then obtain d where d: "x = Num d" "0 \<le> d" "is_integer d"
    by (cases x) (simp_all add: natural_num_def)
  then have "of_nat (nat (floor_decimal d)) = d" by (simp add: integer_of_nat)
  then show "\<exists>n :: nat. x = Num (of_nat n)" using d(1) by metis
next
  assume "\<exists>n :: nat. x = Num (of_nat n)"
  then show "natural_num x" by (auto simp: natural_num_def is_integer_of_nat)
qed

lemma natural_num_int: "natural_num x \<longleftrightarrow> (\<exists>n :: int. x = Num (of_int n) \<and> 0 \<le> n)"
proof
  assume "natural_num x"
  then obtain n :: nat where "x = Num (of_nat n)" by (auto simp: natural_num_iff)
  then have "x = Num (of_int (int n)) \<and> 0 \<le> int n" by simp
  then show "\<exists>n :: int. x = Num (of_int n) \<and> 0 \<le> n" by blast
next
  assume "\<exists>n :: int. x = Num (of_int n) \<and> 0 \<le> n"
  then obtain n :: int where n: "x = Num (of_int n)" "0 \<le> n" by blast
  then have "x = Num (of_nat (nat n))" by simp
  then show "natural_num x" unfolding natural_num_iff by blast
qed

lemma join_count: "num_add (num_or (Num (of_nat n)) (Num 0)) (Num 1) = Num (of_nat (Suc n))"
  by (simp add: num_or_def)

lemma leave_count:
  "Math_max (Num 0) (num_sub (num_or (Num (of_nat n)) (Num 1)) (Num 1)) = Num (of_nat (n - 1))"
proof (cases n)
  case 0
  then show ?thesis by (simp add: num_or_def)
next
  case (Suc m)
  have a: "num_or (Num (of_nat (Suc m))) (Num 1) = Num (of_nat (Suc m))"
    by (simp add: num_or_def del: of_nat_Suc)
  have b: "(of_nat (Suc m) :: decimal) - 1 = of_nat m" by simp
  have c: "max 0 (of_nat m :: decimal) = of_nat m" by simp
  show ?thesis unfolding Suc by (simp only: a num_sub.simps b Math_max.simps c diff_Suc_1)
qed

lemma count_dispatch:
  assumes "rooms_all (\<lambda>room0. natural_num (membersCount room0)) st"
  shows "rooms_all (\<lambda>room0. natural_num (membersCount room0)) (next_state (dispatch st sid ev))"
proof (rule rooms_all_dispatch [OF assms])
  fix room0 :: room and rem
  assume "natural_num (membersCount room0)"
  then obtain n :: nat where n: "membersCount room0 = Num (of_nat n)"
    by (auto simp: natural_num_iff)
  have "membersCount (stored (join_update sid room0)) = Num (of_nat (Suc n))"
    using n by (simp only: membersCount_join_update join_count)
  then show "natural_num (membersCount (stored (join_update sid room0)))"
    unfolding natural_num_iff by blast
  have "membersCount (leave_update sid rem room0) = Num (of_nat (n - 1))"
    using n by (simp add: leave_update_def Let_def leave_count)
  then have "membersCount (stored (leave_update sid rem room0)) = Num (of_nat (n - 1))"
    by (simp add: stored_def num_or_def)
  then show "natural_num (membersCount (stored (leave_update sid rem room0)))"
    unfolding natural_num_iff by blast
next
  have zero: "natural_num (Num 0)" and one: "natural_num (Num 1)"
    using natural_num_iff [of "Num 0"] natural_num_iff [of "Num 1"]
      of_nat_0 [where ?'a = decimal] of_nat_1 [where ?'a = decimal] by metis+
  show "natural_num (membersCount (stored (new_room sid)))"
    using zero by (simp add: stored_def new_room_def num_or_def)
  show "natural_num (membersCount (stored (join_update sid (new_room sid))))"
    using one by (simp add: stored_def new_room_def join_update_def Let_def num_or_def)
qed (simp_all add: stored_def natural_num_def num_or_def is_integer_0 split: number.splits)

lemma count_run:
  "rooms_all (\<lambda>room0. natural_num (membersCount room0)) st \<Longrightarrow>
   rooms_all (\<lambda>room0. natural_num (membersCount room0)) (run st evs)"
proof (induction evs arbitrary: st)
  case Nil
  then show ?case by simp
next
  case (Cons x evs)
  obtain sid ev where x: "x = (sid, ev)" by (cases x)
  then show ?case using Cons by (simp add: count_dispatch)
qed

lemma time_dispatch:
  assumes "rooms_all (\<lambda>room0. nonneg_num (time room0)) st" and "nonneg_time ev"
  shows "rooms_all (\<lambda>room0. nonneg_num (time room0)) (next_state (dispatch st sid ev))"
proof (rule rooms_all_dispatch [OF assms(1)])
  fix room0 :: room and b
  show "nonneg_num (time (stored (room0\<lparr> time := Number_or0 (event_time ev), playing := b \<rparr>)))"
    using assms(2)
    by (cases "event_time ev")
       (auto simp: stored_def num_or_def nonneg_num_def nonneg_time_def split: number.splits)
qed (simp_all add: stored_def new_room_def join_update_def leave_update_def Let_def num_or_def
       nonneg_num_def split: number.splits)

lemma time_run:
  "rooms_all (\<lambda>room0. nonneg_num (time room0)) st \<Longrightarrow>
   list_all (\<lambda>(sid, ev). nonneg_time ev) evs \<Longrightarrow>
   rooms_all (\<lambda>room0. nonneg_num (time room0)) (run st evs)"
proof (induction evs arbitrary: st)
  case Nil
  then show ?case by simp
next
  case (Cons x evs)
  obtain sid ev where x: "x = (sid, ev)" by (cases x)
  then show ?case using Cons by (simp add: time_dispatch)
qed

text \<open>
  C8: when every play, pause and seek of a run carries a finite time that is not
  negative (or none), the time of every stored room is a finite number that is not
  negative. The times are decimal numbers, fractions of a second included.
\<close>

theorem position_nonneg:
  assumes "list_all (\<lambda>(sid, ev). nonneg_time ev) evs"
    and "getRoom (run init evs) r = Inr (Some room0)"
  shows "\<exists>t. time room0 = Num t \<and> 0 \<le> t"
  using rooms_all_room [OF time_run [OF rooms_all_init assms(1)] assms(2)]
  by (simp add: nonneg_num_iff)

text \<open>Alice seeks to 12.5 seconds.\<close>

theorem position_nonneg_witness:
  "list_all (\<lambda>(sid, ev). nonneg_time ev)
     (demo_alice @ [(''A'', Seek (Some (Num (scale10 125 (- 1)))))]) \<and>
   getRoom (run init (demo_alice @ [(''A'', Seek (Some (Num (scale10 125 (- 1)))))])) ''r1'' =
     Inr (Some \<lparr> videoId = [], time = Num (scale10 125 (- 1)), playing = False,
                 membersCount = Num 1, moderatorId = ''A'', queue = [] \<rparr>) \<and>
   (\<exists>t. time \<lparr> videoId = [], time = Num (scale10 125 (- 1)), playing = False,
                membersCount = Num 1, moderatorId = ''A'', queue = [] \<rparr> = Num t \<and> 0 \<le> t)"
proof -
  have tr: "list_all (\<lambda>(sid, ev). nonneg_time ev)
              (demo_alice @ [(''A'', Seek (Some (Num (scale10 125 (- 1)))))])"
    by (simp add: demo_alice_def nonneg_time_def nonneg_num_def scale10_nonneg)
  have g: "getRoom (run init (demo_alice @ [(''A'', Seek (Some (Num (scale10 125 (- 1)))))])) ''r1'' =
     Inr (Some \<lparr> videoId = [], time = Num (scale10 125 (- 1)), playing = False,
                 membersCount = Num 1, moderatorId = ''A'', queue = [] \<rparr>)"
    using demo_alice_room demo_alice_socket
    by (simp add: run_snoc dispatch_effect seek_effect bound_room_def getRoom_setRoom
        stored_def num_or_def scale10_eq_0)
  show ?thesis using position_nonneg [OF tr g] tr g by blast
qed

text \<open>A seek to a negative time is stored as it is.\<close>

theorem negative_seek_counterexample:
  "getRoom (run init (demo_alice @ [(''A'', Seek (Some (Num (- 5))))])) ''r1'' =
     Inr (Some \<lparr> videoId = [], time = Num (- 5), playing = False, membersCount = Num 1,
                 moderatorId = ''A'', queue = [] \<rparr>)"
  using demo_alice_room demo_alice_socket
  by (simp add: run_snoc dispatch_def on_seek_def finish_def Let_def getRoom_setRoom stored_def num_or_def)

text \<open>
  In a run the member count read back is a number, so the second pause also sets the
  same expiry: the whole server state is the same after two pauses as after one.
\<close>

lemma pause_idempotent_run:
  "next_state (dispatch (next_state (dispatch (run init evs) sid (Pause t))) sid (Pause t)) =
   next_state (dispatch (run init evs) sid (Pause t))"
proof -
  let ?st = "run init evs"
  let ?s1 = "next_state (dispatch ?st sid (Pause t))"
  let ?s2 = "next_state (dispatch ?s1 sid (Pause t))"
  have cnt: "rooms_all (\<lambda>room0. natural_num (membersCount room0)) ?st"
    using rooms_all_init by (rule count_run)
  have "expiry ?s2 = expiry ?s1"
  proof (cases "sockets ?st sid")
    case None
    then show ?thesis by (simp add: dispatch_effect)
  next
    case (Some sd)
    show ?thesis
    proof (cases "bound_room ?st sd")
      case None
      then show ?thesis using Some by (simp add: dispatch_effect pause_effect)
    next
      case b: (Some p)
      obtain rid room0 where p: "p = (rid, room0)" by (cases p)
      then have b0: "bound_room ?st sd = Some (rid, room0)" using b by simp
      then have b': "rid \<noteq> []" "data_roomId sd = Some rid" "getRoom ?st rid = Inr (Some room0)"
        by (simp_all add: bound_room_Some)
      obtain n where n: "membersCount room0 = Num n"
        using rooms_all_room [OF cnt b'(3)] by (auto simp: natural_num_iff)
      let ?room1 = "room0\<lparr> time := Number_or0 t, playing := False \<rparr>"
      have s1: "?s1 = setRoom ?st rid ?room1" using Some b0 by (rule pause_step)
      have sd1: "sockets (setRoom ?st rid ?room1) sid = Some sd"
        using Some by (simp add: sockets_setRoom)
      have b1: "bound_room (setRoom ?st rid ?room1) sd = Some (rid, stored ?room1)"
        using b' by (simp add: bound_room_Some getRoom_setRoom)
      have s2: "?s2 = setRoom (setRoom ?st rid ?room1) rid
                        ((stored ?room1)\<lparr> time := Number_or0 t, playing := False \<rparr>)"
        unfolding s1 using sd1 b1 by (rule pause_step)
      show ?thesis unfolding s2 unfolding s1
        using n by (simp add: setRoom_def Let_def stored_def num_or_def)
    qed
  qed
  then show ?thesis using pause_twice [of "run init evs" sid t]
    by (intro server.equality) simp_all
qed

section \<open>What holds of the transport in every run\<close>

lemma transport_ok_init: "transport_ok init"
  by (simp add: transport_ok_def sockets_init adapter_init)

lemma transport_ok_dispatch:
  assumes "transport_ok st"
  shows "transport_ok (next_state (dispatch st sid ev))"
  using assms unfolding transport_ok_def dispatch_sockets dispatch_adapter
  by (cases ev; auto split: if_splits; blast)

lemma transport_ok_run: "transport_ok st \<Longrightarrow> transport_ok (run st evs)"
proof (induction evs arbitrary: st)
  case Nil
  then show ?case by simp
next
  case (Cons x evs)
  obtain sid ev where x: "x = (sid, ev)" by (cases x)
  then show ?case using Cons by (simp add: transport_ok_dispatch)
qed

lemma leave_moderator:
  assumes tr: "transport_ok st"
    and sd: "sockets st sid = Some sd" "data_roomId sd = Some r"
    and g: "getRoom st r = Inr (Some room0)" and md: "moderatorId room0 = sid"
    and g': "getRoom (next_state (dispatch st sid Disconnect)) r = Inr (Some room1)"
  shows "moderatorId room1 \<noteq> sid"
    and "moderatorId room1 = [] \<or>
         (moderatorId room1 \<in> set (adapter (next_state (dispatch st sid Disconnect)) r) \<and>
          sockets (next_state (dispatch st sid Disconnect)) (moderatorId room1) \<noteq> None)"
proof -
  have sid: "sid \<noteq> []" and r: "r \<noteq> []" using tr sd by (auto simp: transport_ok_def)
  have b: "bound_room st sd = Some (r, room0)" using sd g r by (simp add: bound_room_Some)
  let ?rem = "removeAll sid (adapter st r)"
  have st': "next_state (dispatch st sid Disconnect) =
             setRoom (socket_close st sid) r (leave_update sid ?rem room0)"
    using sd b by (simp add: dispatch_effect disconnect_effect)
  have room1: "room1 = stored (leave_update sid ?rem room0)"
    using g' by (simp add: st' getRoom_setRoom)
  have m1: "moderatorId room1 = (case ?rem of [] \<Rightarrow> [] | s # _ \<Rightarrow> s)"
    using md by (simp add: room1 stored_def leave_update_def Let_def)
  show "moderatorId room1 \<noteq> sid"
  proof (cases ?rem)
    case Nil
    then show ?thesis using m1 sid by simp
  next
    case (Cons s ss)
    then have "s \<in> set ?rem" by simp
    then have "s \<noteq> sid" by simp
    then show ?thesis using m1 Cons by simp
  qed
  show "moderatorId room1 = [] \<or>
         (moderatorId room1 \<in> set (adapter (next_state (dispatch st sid Disconnect)) r) \<and>
          sockets (next_state (dispatch st sid Disconnect)) (moderatorId room1) \<noteq> None)"
  proof (cases ?rem)
    case Nil
    then show ?thesis using m1 by simp
  next
    case (Cons s ss)
    then have in_rem: "s \<in> set ?rem" by simp
    then have "s \<noteq> sid" "s \<in> set (adapter st r)" by simp_all
    moreover from this have "sockets st s \<noteq> None" using tr by (auto simp: transport_ok_def)
    ultimately show ?thesis using m1 Cons in_rem
      by (simp add: st' adapter_setRoom sockets_setRoom adapter_socket_close sockets_socket_close)
  qed
qed

section \<open>Every bound socket's room has a moderator\<close>

lemma moderatedI:
  assumes "\<And>s sd r. sockets st s = Some sd \<Longrightarrow> data_roomId sd = Some r \<Longrightarrow> s \<in> set (adapter st r)"
    and "\<And>s sd r. sockets st s = Some sd \<Longrightarrow> data_roomId sd = Some r \<Longrightarrow>
           \<exists>room0. getRoom st r = Inr (Some room0) \<and> moderatorId room0 \<noteq> []"
  shows "moderated st"
  using assms unfolding moderated_def by blast

lemma moderated_member:
  "moderated st \<Longrightarrow> sockets st s = Some sd \<Longrightarrow> data_roomId sd = Some r \<Longrightarrow> s \<in> set (adapter st r)"
  unfolding moderated_def by blast

lemma moderated_room:
  "moderated st \<Longrightarrow> sockets st s = Some sd \<Longrightarrow> data_roomId sd = Some r \<Longrightarrow>
     \<exists>room0. getRoom st r = Inr (Some room0) \<and> moderatorId room0 \<noteq> []"
  unfolding moderated_def by blast

lemma moderated_init: "moderated init"
  by (simp add: moderated_def sockets_init)

lemma moderatorId_stored: "moderatorId (stored r) = moderatorId r"
  by (simp add: stored_def)

lemma moderated_setRoom_same:
  assumes inv: "moderated st" and g: "getRoom st rid = Inr (Some room0)"
    and m: "moderatorId room1 = moderatorId room0"
  shows "moderated (setRoom st rid room1)"
proof (rule moderatedI)
  fix s sd r
  assume s: "sockets (setRoom st rid room1) s = Some sd" and b: "data_roomId sd = Some r"
  then have s': "sockets st s = Some sd" by (simp add: sockets_setRoom)
  show "s \<in> set (adapter (setRoom st rid room1) r)"
    using moderated_member [OF inv s' b] by (simp add: adapter_setRoom)
  show "\<exists>room0. getRoom (setRoom st rid room1) r = Inr (Some room0) \<and> moderatorId room0 \<noteq> []"
    using moderated_room [OF inv s' b] g m
    by (cases "r = rid") (auto simp: getRoom_setRoom getRoom_setRoom_other moderatorId_stored)
qed

lemma moderatorId_join_update: "sid \<noteq> [] \<Longrightarrow> moderatorId (join_update sid base) \<noteq> []"
  by (simp add: join_update_def Let_def)

lemma moderated_join:
  assumes inv: "moderated st" and sid: "sid \<noteq> []"
    and X: "sockets X = sockets (join_bind st sid rid name)"
       "adapter X = adapter (join_bind st sid rid name)"
       "\<And>r. r \<noteq> rid \<Longrightarrow> getRoom X r = getRoom st r"
  shows "moderated (setRoom X rid (join_update sid base))"
proof (rule moderatedI)
  fix s sd r
  assume s: "sockets (setRoom X rid (join_update sid base)) s = Some sd"
    and b: "data_roomId sd = Some r"
  have old: "sockets st s = Some sd" if "s \<noteq> sid"
    using s that by (simp add: sockets_setRoom X sockets_join_bind)
  have new: "r = rid" if "s = sid"
    using s b that by (auto simp: sockets_setRoom X sockets_join_bind)
  show "s \<in> set (adapter (setRoom X rid (join_update sid base)) r)"
  proof (cases "s = sid")
    case True
    then show ?thesis using new by (simp add: adapter_setRoom X adapter_join_bind)
  next
    case False
    then show ?thesis using moderated_member [OF inv old [OF False] b]
      by (auto simp: adapter_setRoom X adapter_join_bind)
  qed
  show "\<exists>room0. getRoom (setRoom X rid (join_update sid base)) r = Inr (Some room0) \<and>
          moderatorId room0 \<noteq> []"
  proof (cases "r = rid")
    case True
    then show ?thesis
      by (simp add: getRoom_setRoom moderatorId_stored moderatorId_join_update [OF sid])
  next
    case False
    then have "s \<noteq> sid" using new by auto
    then show ?thesis using moderated_room [OF inv old b] False
      by (simp add: getRoom_setRoom_other X)
  qed
qed

lemma moderated_dispatch:
  assumes inv: "moderated st" and tr: "transport_ok st" and rd: "rooms_all (\<lambda>room0. True) st"
  shows "moderated (next_state (dispatch st sid ev))"
proof (cases "sockets st sid")
  case None
  show ?thesis
  proof (cases "ev = Connection")
    case True
    show ?thesis
    proof (cases "sid = []")
      case True
      then show ?thesis using inv \<open>ev = Connection\<close> by (simp add: dispatch_effect connection_effect)
    next
      case False
      show ?thesis
      proof (rule moderatedI)
        fix s sd r
        assume s: "sockets (next_state (dispatch st sid ev)) s = Some sd"
          and b: "data_roomId sd = Some r"
        then have s': "sockets st s = Some sd"
          using None False True by (auto simp: dispatch_sockets split: if_splits)
        show "s \<in> set (adapter (next_state (dispatch st sid ev)) r)"
          using moderated_member [OF inv s' b] None False True by (auto simp: dispatch_adapter)
        show "\<exists>room0. getRoom (next_state (dispatch st sid ev)) r = Inr (Some room0) \<and>
                moderatorId room0 \<noteq> []"
          using moderated_room [OF inv s' b] None False True
          by (simp add: dispatch_effect connection_effect getRoom_socket_join getRoom_sockets_update)
      qed
    qed
  next
    case False
    then show ?thesis using None inv by (cases ev) (simp_all add: dispatch_effect)
  qed
next
  case (Some sd0)
  have sid: "sid \<noteq> []" using tr Some by (auto simp: transport_ok_def)
  have same: "moderated (setRoom st rid room1)"
    if "bound_room st sd0 = Some (rid, room0)" and "moderatorId room1 = moderatorId room0"
    for rid room0 room1
    using inv that by (auto simp: bound_room_Some intro: moderated_setRoom_same)
  show ?thesis
  proof (cases ev)
    case Connection
    then show ?thesis using Some inv by (simp add: dispatch_effect connection_effect)
  next
    case (Join_room ro nm rnd)
    show ?thesis
    proof (cases "str_or ro [] = []")
      case True
      then show ?thesis using Join_room Some inv by (simp add: dispatch_effect join_room_effect)
    next
      case False
      define rid where "rid = str_or ro []"
      define B where "B = join_bind st sid rid (join_name nm rnd)"
      have a: "moderated (setRoom (setRoom B rid (new_room sid)) rid (join_update sid (new_room sid)))"
        by (rule moderated_join [OF inv sid, where name = "join_name nm rnd"])
           (simp_all add: B_def sockets_setRoom adapter_setRoom getRoom_setRoom_other getRoom_join_bind)
      have b: "moderated (setRoom B rid (join_update sid room0))" for room0
        by (rule moderated_join [OF inv sid, where name = "join_name nm rnd"])
           (simp_all add: B_def getRoom_join_bind)
      show ?thesis using Join_room Some False a b rooms_all_not_Inl [OF rd]
        by (auto simp: dispatch_effect join_room_effect rid_def B_def split: sum.splits option.splits)
    qed
  next
    case (Load_video vid)
    then show ?thesis using Some inv same
      by (auto simp: dispatch_effect load_video_effect split: option.splits jsval.splits)
  next
    case (Play t)
    then show ?thesis using Some inv same
      by (auto simp: dispatch_effect play_effect split: option.splits)
  next
    case (Pause t)
    then show ?thesis using Some inv same
      by (auto simp: dispatch_effect pause_effect split: option.splits)
  next
    case (Seek t)
    then show ?thesis using Some inv same
      by (auto simp: dispatch_effect seek_effect split: option.splits)
  next
    case (Chat x)
    then show ?thesis using Some inv by (simp add: dispatch_effect)
  next
    case Request_sync
    then show ?thesis using Some inv by (simp add: dispatch_effect)
  next
    case Disconnect
    let ?st' = "next_state (dispatch st sid Disconnect)"
    have so: "sockets ?st' = (sockets st)(sid := None)" by (simp add: dispatch_sockets)
    have ad: "adapter ?st' = (\<lambda>r. removeAll sid (adapter st r))"
      using Some by (simp add: dispatch_adapter)
    have "moderated ?st'"
    proof (rule moderatedI)
      fix s sd r
      assume s: "sockets ?st' s = Some sd" and b: "data_roomId sd = Some r"
      then have ne: "s \<noteq> sid" and s': "sockets st s = Some sd"
        by (auto simp: so split: if_splits)
      have mem: "s \<in> set (removeAll sid (adapter st r))"
        using moderated_member [OF inv s' b] ne by simp
      then show "s \<in> set (adapter ?st' r)" by (simp add: ad)
      obtain room0 where g: "getRoom st r = Inr (Some room0)" and m: "moderatorId room0 \<noteq> []"
        using moderated_room [OF inv s' b] by blast
      show "\<exists>room0. getRoom ?st' r = Inr (Some room0) \<and> moderatorId room0 \<noteq> []"
      proof (cases "bound_room st sd0")
        case None
        then show ?thesis using Some g m
          by (simp add: dispatch_effect disconnect_effect getRoom_socket_close)
      next
        case bd: (Some p)
        obtain rid base where p: "p = (rid, base)" by (cases p)
        have st': "?st' = setRoom (socket_close st sid) rid
                            (leave_update sid (removeAll sid (adapter st rid)) base)"
          using Some bd p by (simp add: dispatch_effect disconnect_effect)
        show ?thesis
        proof (cases "r = rid")
          case False
          then show ?thesis using g m
            by (simp add: st' getRoom_setRoom_other getRoom_socket_close)
        next
          case True
          then have base: "base = room0" using bd p g by (simp add: bound_room_Some)
          obtain x xs where rem: "removeAll sid (adapter st rid) = x # xs"
            using mem True by (cases "removeAll sid (adapter st rid)") auto
          then have "x \<in> set (adapter st rid)"
            by (metis list.set_intros(1) set_removeAll Diff_iff)
          then have "x \<noteq> []" using tr unfolding transport_ok_def by blast
          then show ?thesis using True m rem
            by (simp add: st' getRoom_setRoom moderatorId_stored base leave_update_def Let_def)
        qed
      qed
    qed
    then show ?thesis using Disconnect by simp
  qed
qed

lemma moderated_run: "moderated (run init evs)"
proof (induction evs rule: rev_induct)
  case Nil
  show ?case by (simp add: moderated_init)
next
  case (snoc x evs)
  obtain sid ev where x: "x = (sid, ev)" by (cases x)
  have "transport_ok (run init evs)" using transport_ok_init by (rule transport_ok_run)
  moreover have "rooms_all (\<lambda>room0. True) (run init evs)"
    using count_run [OF rooms_all_init, of evs]
    by (auto simp: rooms_all_def split: sum.splits option.splits)
  ultimately show ?case using snoc by (simp add: x run_snoc moderated_dispatch)
qed

section \<open>Who may load a video\<close>

text \<open>
  C3: a load-video from a socket that is bound to a room and is not the room's moderator
  is answered with the moderator-only error, sent to the actor alone, exactly when the
  record names a moderator, and then nothing in the state changes. When the record names
  no moderator the request passes this check: a valid id is loaded for any member, and
  an invalid one is refused by the validator. In a run the record of a bound socket
  always names a moderator, so there every such request is rejected.
\<close>

theorem load_video_authorization:
  assumes "sockets st sid = Some sd" and "data_roomId sd = Some rid" and "rid \<noteq> []"
    and "getRoom st rid = Inr (Some room0)"
    and "sid \<noteq> moderatorId room0"
  shows "((emitted (dispatch st sid (Load_video vid)) =
            [(To_socket sid, Msg_error ''Only moderator can load video'')]) =
          (moderatorId room0 \<noteq> [])) \<and>
         (moderatorId room0 \<noteq> [] \<longrightarrow> next_state (dispatch st sid (Load_video vid)) = st) \<and>
         (moderatorId room0 = [] \<and> isValidYouTubeId vid \<longrightarrow>
            (\<exists>v. vid = JString v \<and>
               emitted (dispatch st sid (Load_video vid)) = [(To_room rid, Msg_load_video v)] \<and>
               getRoom (next_state (dispatch st sid (Load_video vid))) rid =
                 Inr (Some (stored (room0\<lparr> videoId := v, time := Num 0, playing := False \<rparr>))))) \<and>
         (moderatorId room0 = [] \<and> \<not> isValidYouTubeId vid \<longrightarrow>
            emitted (dispatch st sid (Load_video vid)) =
              [(To_socket sid, Msg_error ''Invalid YouTube id'')]) \<and>
         (\<forall>evs. st = run init evs \<longrightarrow> moderatorId room0 \<noteq> [])"
proof -
  have reach: "\<forall>evs. st = run init evs \<longrightarrow> moderatorId room0 \<noteq> []"
  proof (intro allI impI)
    fix evs
    assume "st = run init evs"
    then have "moderated st" by (simp add: moderated_run)
    from moderated_room [OF this assms(1,2)] assms(4) show "moderatorId room0 \<noteq> []" by simp
  qed
  show ?thesis
  proof (cases "moderatorId room0 = []")
    case False
    then have "dispatch st sid (Load_video vid) =
                 finish st [(To_socket sid, Msg_error ''Only moderator can load video'')]"
      using assms by (simp add: dispatch_def on_load_video_def Let_def)
    then show ?thesis using False by (simp add: finish_def)
  next
    case True
    show ?thesis
    proof (cases "isValidYouTubeId vid")
      case False
      then have "dispatch st sid (Load_video vid) =
                   finish st [(To_socket sid, Msg_error ''Invalid YouTube id'')]"
        using assms True by (simp add: dispatch_def on_load_video_def Let_def)
      then show ?thesis using True False reach by (simp add: finish_def)
    next
      case valid: True
      then obtain v where v: "vid = JString v" by (cases vid) simp_all
      have "dispatch st sid (Load_video vid) =
              finish (setRoom st rid (room0\<lparr> videoId := v, time := Num 0, playing := False \<rparr>))
                [(To_room rid, Msg_load_video v)]"
        using assms True valid v by (simp add: dispatch_def on_load_video_def Let_def)
      then show ?thesis using True valid v reach by (simp add: finish_def getRoom_setRoom)
    qed
  qed
qed

text \<open>
  Bob, who is not the moderator of r1, tries to load a valid id and is rejected. In the
  store whose record of r1 was written without a moderator, Alice's valid id is loaded.
\<close>

theorem load_video_authorization_witness:
  "sockets (run init demo_pair) ''B'' = Some \<lparr> data_name = Some ''Bob'', data_roomId = Some ''r1'' \<rparr> \<and>
   getRoom (run init demo_pair) ''r1'' =
     Inr (Some \<lparr> videoId = [], time = Num 0, playing = False, membersCount = Num 2,
                 moderatorId = ''A'', queue = [] \<rparr>) \<and>
   emitted (dispatch (run init demo_pair) ''B'' (Load_video (JString ''dQw4w9WgXcQ''))) =
     [(To_socket ''B'', Msg_error ''Only moderator can load video'')] \<and>
   next_state (dispatch (run init demo_pair) ''B'' (Load_video (JString ''dQw4w9WgXcQ''))) =
     run init demo_pair \<and>
   sockets demo_nomod ''A'' = Some \<lparr> data_name = Some ''Alice'', data_roomId = Some ''r1'' \<rparr> \<and>
   getRoom demo_nomod ''r1'' =
     Inr (Some \<lparr> videoId = [], time = Num 0, playing = False, membersCount = Num 1,
                 moderatorId = [], queue = [] \<rparr>) \<and>
   isValidYouTubeId (JString ''dQw4w9WgXcQ'') \<and>
   emitted (dispatch demo_nomod ''A'' (Load_video (JString ''dQw4w9WgXcQ''))) =
     [(To_room ''r1'', Msg_load_video ''dQw4w9WgXcQ'')]"
  using load_video_authorization [OF demo_pair_socket _ _ demo_pair_room,
      of "JString ''dQw4w9WgXcQ''"]
    load_video_authorization [OF demo_nomod_socket _ _ demo_nomod_room,
      of "JString ''dQw4w9WgXcQ''"]
    demo_pair_socket demo_pair_room demo_nomod_socket demo_nomod_room valid_demo_id
  by simp

section \<open>Members and moderator under the join discipline\<close>

lemma coherentI:
  assumes "\<And>s sd. S s = Some sd \<Longrightarrow> s \<noteq> []"
    and "\<And>r. distinct (A r)"
    and "\<And>r s. s \<in> set (A r) \<longleftrightarrow> (\<exists>sd. S s = Some sd \<and> (r = s \<or> data_roomId sd = Some r))"
    and "\<And>r. room_ok G S A r"
    and "\<And>s sd r. S s = Some sd \<Longrightarrow> data_roomId sd = Some r \<Longrightarrow> G r \<noteq> Inr None"
  shows "coherent G S A"
  using assms unfolding coherent_def by blast

lemma coherent_id: "coherent G S A \<Longrightarrow> S s = Some sd \<Longrightarrow> s \<noteq> []"
  unfolding coherent_def by blast

lemma coherent_distinct: "coherent G S A \<Longrightarrow> distinct (A r)"
  unfolding coherent_def by blast

lemma coherent_members:
  "coherent G S A \<Longrightarrow>
     s \<in> set (A r) \<longleftrightarrow> (\<exists>sd. S s = Some sd \<and> (r = s \<or> data_roomId sd = Some r))"
  unfolding coherent_def by blast

lemma coherent_room_ok: "coherent G S A \<Longrightarrow> room_ok G S A r"
  unfolding coherent_def by blast

lemma coherent_bound: "coherent G S A \<Longrightarrow> S s = Some sd \<Longrightarrow> data_roomId sd = Some r \<Longrightarrow> G r \<noteq> Inr None"
  unfolding coherent_def by blast

lemma coherent_not_Inl: "coherent G S A \<Longrightarrow> G r \<noteq> Inl e"
  using coherent_room_ok [of G S A r] by (auto simp: room_ok_def)

lemma coherent_room:
  assumes "coherent G S A" and "G r = Inr (Some room0)"
  shows "r \<noteq> []" and "S r = None" and "membersCount room0 = Num (of_nat (length (A r)))"
    and "A r = [] \<Longrightarrow> moderatorId room0 = []"
    and "A r \<noteq> [] \<Longrightarrow> moderatorId room0 \<in> set (A r)"
  using coherent_room_ok [OF assms(1), of r] assms(2)
  by (auto simp: room_ok_def split: if_splits)

lemma coherent_bound_room:
  assumes "coherent G S A" and "S s = Some sd" and "data_roomId sd = Some r"
  obtains room0 where "G r = Inr (Some room0)"
proof (cases "G r")
  case (Inl e)
  then show ?thesis using coherent_not_Inl [OF assms(1), of r e] by simp
next
  case (Inr p)
  then show ?thesis using coherent_bound [OF assms] that by (cases p) auto
qed

lemma coherent_update:
  assumes co: "coherent G S A" and g: "G rid = Inr (Some room0)"
    and m: "membersCount room1 = membersCount room0" "moderatorId room1 = moderatorId room0"
  shows "coherent (G(rid := Inr (Some room1))) S A"
proof (rule coherentI)
  fix r
  show "room_ok (G(rid := Inr (Some room1))) S A r"
  proof (cases "r = rid")
    case True
    then show ?thesis
      using coherent_room [OF co g] m by (auto simp: room_ok_def)
  next
    case False
    then show ?thesis using coherent_room_ok [OF co, of r] by (simp add: room_ok_def)
  qed
next
  fix s sd r
  assume "S s = Some sd" "data_roomId sd = Some r"
  then show "(G(rid := Inr (Some room1))) r \<noteq> Inr None"
    using coherent_bound [OF co] by auto
qed (use co in \<open>auto dest: coherent_id simp: coherent_distinct coherent_members\<close>)

lemma coherent_connection:
  assumes co: "coherent G S A" and fresh: "s0 \<noteq> []" "S s0 = None" and norec: "G s0 = Inr None"
  shows "coherent G (S(s0 \<mapsto> \<lparr> data_name = None, data_roomId = None \<rparr>))
           (A(s0 := (if s0 \<in> set (A s0) then A s0 else A s0 @ [s0])))"
proof -
  have empty: "A s0 = []"
  proof (rule ccontr)
    assume "A s0 \<noteq> []"
    then obtain s where "s \<in> set (A s0)" by (cases "A s0") auto
    then obtain sd where "S s = Some sd" "s0 = s \<or> data_roomId sd = Some s0"
      using coherent_members [OF co] by blast
    then show False using fresh(2) coherent_bound [OF co] norec by auto
  qed
  have out: "s0 \<notin> set (A r)" for r
    using coherent_members [OF co, of s0 r] fresh(2) by simp
  show ?thesis
  proof (rule coherentI)
    fix s sd
    assume "(S(s0 \<mapsto> \<lparr> data_name = None, data_roomId = None \<rparr>)) s = Some sd"
    then show "s \<noteq> []" using fresh(1) coherent_id [OF co] by (auto split: if_splits)
  next
    fix r
    show "distinct ((A(s0 := (if s0 \<in> set (A s0) then A s0 else A s0 @ [s0]))) r)"
      using coherent_distinct [OF co] empty by simp
  next
    fix r s
    show "s \<in> set ((A(s0 := (if s0 \<in> set (A s0) then A s0 else A s0 @ [s0]))) r) \<longleftrightarrow>
          (\<exists>sd. (S(s0 \<mapsto> \<lparr> data_name = None, data_roomId = None \<rparr>)) s = Some sd \<and>
                (r = s \<or> data_roomId sd = Some r))"
    proof (cases "s = s0")
      case True
      then show ?thesis using empty out [of r] by auto
    next
      case False
      have "\<not> (\<exists>sd. S s = Some sd \<and> data_roomId sd = Some s0)"
        using coherent_bound [OF co] norec by auto
      then show ?thesis using False empty coherent_members [OF co, of s r] by auto
    qed
  next
    fix r
    show "room_ok G (S(s0 \<mapsto> \<lparr> data_name = None, data_roomId = None \<rparr>))
            (A(s0 := (if s0 \<in> set (A s0) then A s0 else A s0 @ [s0]))) r"
      using coherent_room_ok [OF co, of r] norec
      by (cases "r = s0") (auto simp: room_ok_def split: sum.splits option.splits)
  next
    fix s sd r
    assume "(S(s0 \<mapsto> \<lparr> data_name = None, data_roomId = None \<rparr>)) s = Some sd"
      and "data_roomId sd = Some r"
    then show "G r \<noteq> Inr None" using coherent_bound [OF co] by (auto split: if_splits)
  qed
qed

lemma coherent_disconnect_unbound:
  assumes co: "coherent G S A" and sd: "S s0 = Some sd" "data_roomId sd = None"
  shows "coherent G (S(s0 := None)) (\<lambda>r. removeAll s0 (A r))"
proof (rule coherentI)
  fix s sd'
  assume "(S(s0 := None)) s = Some sd'"
  then show "s \<noteq> []" using coherent_id [OF co] by (auto split: if_splits)
next
  fix r
  show "distinct (removeAll s0 (A r))" using coherent_distinct [OF co] by (simp add: distinct_removeAll)
next
  fix r s
  show "s \<in> set (removeAll s0 (A r)) \<longleftrightarrow>
        (\<exists>sd'. (S(s0 := None)) s = Some sd' \<and> (r = s \<or> data_roomId sd' = Some r))"
    using coherent_members [OF co, of s r] by auto
next
  fix r
  show "room_ok G (S(s0 := None)) (\<lambda>r. removeAll s0 (A r)) r"
  proof (cases "G r")
    case (Inl e)
    then show ?thesis using coherent_not_Inl [OF co, of r e] by simp
  next
    case (Inr p)
    show ?thesis
    proof (cases p)
      case None
      then show ?thesis using Inr by (simp add: room_ok_def)
    next
      case (Some room0)
      then have g: "G r = Inr (Some room0)" using Inr by simp
      have "s0 \<notin> set (A r)"
        using coherent_members [OF co, of s0 r] sd coherent_room(2) [OF co g] by auto
      then have "removeAll s0 (A r) = A r" by simp
      then show ?thesis using coherent_room [OF co g] g by (auto simp: room_ok_def)
    qed
  qed
next
  fix s sd' r
  assume "(S(s0 := None)) s = Some sd'" and "data_roomId sd' = Some r"
  then show "G r \<noteq> Inr None" using coherent_bound [OF co] by (auto split: if_splits)
qed

lemma coherent_join:
  assumes co: "coherent G S A" and sd: "S s0 = Some sd" "data_roomId sd = None"
    and rid: "rid \<noteq> []" "S rid = None"
    and cnt: "membersCount room1 = Num (of_nat (Suc (length (A rid))))"
    and md: "moderatorId room1 \<in> set (A rid @ [s0])"
  shows "coherent (G(rid := Inr (Some room1)))
           (S(s0 \<mapsto> \<lparr> data_name = nm, data_roomId = Some rid \<rparr>))
           (A(rid := (if s0 \<in> set (A rid) then A rid else A rid @ [s0])))"
proof -
  have ne: "rid \<noteq> s0" using sd rid by auto
  have mem: "s0 \<in> set (A r) \<longleftrightarrow> r = s0" for r
    using coherent_members [OF co, of s0 r] sd by auto
  then have out: "s0 \<notin> set (A rid)" using ne by simp
  show ?thesis
  proof (rule coherentI)
    fix s sd'
    assume "(S(s0 \<mapsto> \<lparr> data_name = nm, data_roomId = Some rid \<rparr>)) s = Some sd'"
    then show "s \<noteq> []" using coherent_id [OF co] sd(1) by (auto split: if_splits)
  next
    fix r
    show "distinct ((A(rid := (if s0 \<in> set (A rid) then A rid else A rid @ [s0]))) r)"
      using coherent_distinct [OF co] out by simp
  next
    fix r s
    show "s \<in> set ((A(rid := (if s0 \<in> set (A rid) then A rid else A rid @ [s0]))) r) \<longleftrightarrow>
          (\<exists>sd'. (S(s0 \<mapsto> \<lparr> data_name = nm, data_roomId = Some rid \<rparr>)) s = Some sd' \<and>
                 (r = s \<or> data_roomId sd' = Some r))"
    proof (cases "s = s0")
      case True
      then show ?thesis using mem [of r] out ne by auto
    next
      case False
      then show ?thesis using coherent_members [OF co, of s r] out by auto
    qed
  next
    fix r
    show "room_ok (G(rid := Inr (Some room1)))
            (S(s0 \<mapsto> \<lparr> data_name = nm, data_roomId = Some rid \<rparr>))
            (A(rid := (if s0 \<in> set (A rid) then A rid else A rid @ [s0]))) r"
    proof (cases "r = rid")
      case True
      then show ?thesis using out rid ne cnt md by (auto simp: room_ok_def)
    next
      case False
      show ?thesis
      proof (cases "G r")
        case (Inl e)
        then show ?thesis using coherent_not_Inl [OF co, of r e] by simp
      next
        case (Inr p)
        show ?thesis
        proof (cases p)
          case None
          then show ?thesis using Inr False by (simp add: room_ok_def)
        next
          case (Some room0)
          then have g: "G r = Inr (Some room0)" using Inr by simp
          have "r \<noteq> s0" using coherent_room(2) [OF co g] sd(1) by auto
          then show ?thesis using False g coherent_room [OF co g] by (auto simp: room_ok_def)
        qed
      qed
    qed
  next
    fix s sd' r
    assume "(S(s0 \<mapsto> \<lparr> data_name = nm, data_roomId = Some rid \<rparr>)) s = Some sd'"
      and "data_roomId sd' = Some r"
    then show "(G(rid := Inr (Some room1))) r \<noteq> Inr None"
      using coherent_bound [OF co] by (auto split: if_splits)
  qed
qed

lemma coherent_disconnect_bound:
  assumes co: "coherent G S A" and sd: "S s0 = Some sd" "data_roomId sd = Some rid"
    and cnt: "membersCount room1 = Num (of_nat (length (removeAll s0 (A rid))))"
    and md: "if removeAll s0 (A rid) = [] then moderatorId room1 = []
             else moderatorId room1 \<in> set (removeAll s0 (A rid))"
  shows "coherent (G(rid := Inr (Some room1))) (S(s0 := None)) (\<lambda>r. removeAll s0 (A r))"
proof -
  obtain room0 where g0: "G rid = Inr (Some room0)" using coherent_bound_room [OF co sd] .
  have rid: "rid \<noteq> []" "S rid = None" using coherent_room(1,2) [OF co g0] by auto
  show ?thesis
  proof (rule coherentI)
    fix s sd'
    assume "(S(s0 := None)) s = Some sd'"
    then show "s \<noteq> []" using coherent_id [OF co] by (auto split: if_splits)
  next
    fix r
    show "distinct (removeAll s0 (A r))" using coherent_distinct [OF co] by (simp add: distinct_removeAll)
  next
    fix r s
    show "s \<in> set (removeAll s0 (A r)) \<longleftrightarrow>
          (\<exists>sd'. (S(s0 := None)) s = Some sd' \<and> (r = s \<or> data_roomId sd' = Some r))"
      using coherent_members [OF co, of s r] by auto
  next
    fix r
    show "room_ok (G(rid := Inr (Some room1))) (S(s0 := None)) (\<lambda>r. removeAll s0 (A r)) r"
    proof (cases "r = rid")
      case True
      then show ?thesis using rid cnt md by (auto simp: room_ok_def)
    next
      case False
      show ?thesis
      proof (cases "G r")
        case (Inl e)
        then show ?thesis using coherent_not_Inl [OF co, of r e] by simp
      next
        case (Inr p)
        show ?thesis
        proof (cases p)
          case None
          then show ?thesis using Inr False by (simp add: room_ok_def)
        next
          case (Some room0')
          then have g: "G r = Inr (Some room0')" using Inr by simp
          have "s0 \<notin> set (A r)"
            using coherent_members [OF co, of s0 r] sd coherent_room(2) [OF co g] False by auto
          then have "removeAll s0 (A r) = A r" by simp
          then show ?thesis using False g coherent_room [OF co g] by (auto simp: room_ok_def)
        qed
      qed
    qed
  next
    fix s sd' r
    assume "(S(s0 := None)) s = Some sd'" and "data_roomId sd' = Some r"
    then show "(G(rid := Inr (Some room1))) r \<noteq> Inr None"
      using coherent_bound [OF co] by (auto split: if_splits)
  qed
qed

lemma consistent_init: "consistent init"
  unfolding consistent_def
  by (rule coherentI) (simp_all add: sockets_init adapter_init room_ok_def getRoom_init)

lemma consistent_count:
  "consistent st \<Longrightarrow> getRoom st rid = Inr (Some room0) \<Longrightarrow>
     membersCount room0 = Num (of_nat (length (adapter st rid)))"
  unfolding consistent_def by (rule coherent_room(3))

lemma consistent_setRoom_same:
  assumes co: "consistent st" and g: "getRoom st rid = Inr (Some room0)"
    and m: "membersCount room1 = membersCount room0" "moderatorId room1 = moderatorId room0"
  shows "consistent (setRoom st rid room1)"
proof -
  have "membersCount (stored room1) = membersCount room0"
    using consistent_count [OF co g] m by (simp add: stored_def num_or_def)
  moreover have "moderatorId (stored room1) = moderatorId room0"
    using m by (simp add: stored_def)
  ultimately show ?thesis
    using co g unfolding consistent_def
    by (simp add: getRoom_setRoom_fun sockets_setRoom adapter_setRoom coherent_update)
qed

lemma consistent_connection:
  assumes co: "consistent st" and al: "allowed st sid Connection"
  shows "consistent (next_state (dispatch st sid Connection))"
proof (cases "sid = [] \<or> sockets st sid \<noteq> None")
  case True
  then show ?thesis using co by (auto simp: dispatch_effect connection_effect)
next
  case False
  then have fresh: "sid \<noteq> []" "sockets st sid = None" by auto
  have norec: "getRoom st sid = Inr None" using al by (simp add: allowed_def)
  let ?st' = "socket_join
             (st\<lparr> sockets := (sockets st)(sid \<mapsto> \<lparr> data_name = None, data_roomId = None \<rparr>) \<rparr>)
             sid sid"
  have st': "next_state (dispatch st sid Connection) = ?st'"
    using False by (simp add: dispatch_effect connection_effect)
  have g: "getRoom ?st' = getRoom st"
    by (rule ext) (simp add: getRoom_socket_join getRoom_sockets_update)
  have s: "sockets ?st' = (sockets st)(sid \<mapsto> \<lparr> data_name = None, data_roomId = None \<rparr>)"
    by (simp add: socket_join_def)
  have a: "adapter ?st' = (adapter st)(sid := (if sid \<in> set (adapter st sid) then adapter st sid
                                else adapter st sid @ [sid]))"
    by (simp add: socket_join_def)
  show ?thesis
    unfolding st' consistent_def g s a
    using co fresh norec unfolding consistent_def by (rule coherent_connection)
qed

lemma coherent_no_record_empty:
  assumes co: "coherent G S A" and "G rid = Inr None" and "S rid = None"
  shows "A rid = []"
proof (rule ccontr)
  assume "A rid \<noteq> []"
  then obtain s where "s \<in> set (A rid)" by (cases "A rid") auto
  then obtain sd where "S s = Some sd" "rid = s \<or> data_roomId sd = Some rid"
    using coherent_members [OF co] by blast
  then show False using assms(2,3) coherent_bound [OF co] by auto
qed

lemma coherent_member_id: "coherent G S A \<Longrightarrow> s \<in> set (A r) \<Longrightarrow> s \<noteq> []"
  using coherent_members [of G S A s r] coherent_id [of G S A s] by blast

lemma consistent_join_room:
  assumes co: "consistent st" and al: "allowed st sid (Join_room ro nm rnd)"
    and sd: "sockets st sid = Some sd"
  shows "consistent (next_state (on_join_room st sid ro nm rnd))"
proof (cases "str_or ro [] = []")
  case True
  then show ?thesis using co by (simp add: join_room_effect)
next
  case False
  define rid where "rid = str_or ro []"
  define name where "name = join_name nm rnd"
  define B where "B = join_bind st sid rid name"
  have rid: "rid \<noteq> []" using False by (simp add: rid_def)
  have unbound: "data_roomId sd = None" and nosock: "sockets st rid = None"
    using al sd False by (simp_all add: allowed_def rid_def)
  have co': "coherent (getRoom st) (sockets st) (adapter st)" using co by (simp add: consistent_def)
  have sid: "sid \<noteq> []" using coherent_id [OF co' sd] .
  have target: "consistent (setRoom X rid (join_update sid base))"
    if X: "getRoom X = (getRoom B)(rid := v)" "sockets X = sockets B" "adapter X = adapter B"
      and cnt: "membersCount base = Num (of_nat (length (adapter st rid)))"
      and md: "if adapter st rid = [] then moderatorId base = [] \<or> moderatorId base = sid
               else moderatorId base \<in> set (adapter st rid)"
    for X v base
  proof -
    have c1: "membersCount (stored (join_update sid base)) = Num (of_nat (Suc (length (adapter st rid))))"
      using cnt by (simp only: membersCount_join_update join_count)
    have c2: "moderatorId (stored (join_update sid base)) \<in> set (adapter st rid @ [sid])"
    proof (cases "adapter st rid = []")
      case True
      then show ?thesis using md sid by (auto simp: stored_def join_update_def Let_def)
    next
      case False
      then have "moderatorId base \<in> set (adapter st rid)" using md by simp
      moreover from this have "moderatorId base \<noteq> []" by (rule coherent_member_id [OF co'])
      ultimately show ?thesis by (simp add: stored_def join_update_def Let_def)
    qed
    have "coherent ((getRoom st)(rid := Inr (Some (stored (join_update sid base)))))
            ((sockets st)(sid \<mapsto> \<lparr> data_name = Some name, data_roomId = Some rid \<rparr>))
            ((adapter st)(rid := (if sid \<in> set (adapter st rid) then adapter st rid
                                  else adapter st rid @ [sid])))"
      using co' sd unbound rid nosock c1 c2 by (rule coherent_join)
    then show ?thesis
      unfolding consistent_def getRoom_setRoom_fun sockets_setRoom adapter_setRoom X
      by (simp add: B_def getRoom_join_bind_fun sockets_join_bind adapter_join_bind)
  qed
  show ?thesis
  proof (cases "getRoom st rid")
    case (Inl e)
    then show ?thesis using coherent_not_Inl [OF co', of rid e] by simp
  next
    case (Inr p)
    show ?thesis
    proof (cases p)
      case None
      then have g: "getRoom st rid = Inr None" using Inr by simp
      have empty: "adapter st rid = []" using co' g nosock by (rule coherent_no_record_empty)
      have "consistent (setRoom (setRoom B rid (new_room sid)) rid (join_update sid (new_room sid)))"
        by (rule target [where v = "Inr (Some (stored (new_room sid)))"])
           (simp_all add: getRoom_setRoom_fun sockets_setRoom adapter_setRoom empty new_room_def)
      then show ?thesis using False g
        by (simp add: join_room_effect rid_def [symmetric] name_def [symmetric] B_def)
    next
      case (Some room0)
      then have g: "getRoom st rid = Inr (Some room0)" using Inr by simp
      have "getRoom B = (getRoom B)(rid := getRoom B rid)" by simp
      moreover have "membersCount room0 = Num (of_nat (length (adapter st rid)))"
        using coherent_room(3) [OF co' g] .
      moreover have "if adapter st rid = [] then moderatorId room0 = [] \<or> moderatorId room0 = sid
               else moderatorId room0 \<in> set (adapter st rid)"
        using coherent_room(4,5) [OF co' g] by auto
      ultimately have "consistent (setRoom B rid (join_update sid room0))"
        by (intro target [where v = "getRoom B rid"]) simp_all
      then show ?thesis using False g
        by (simp add: join_room_effect rid_def [symmetric] name_def [symmetric] B_def)
    qed
  qed
qed

lemma length_removeAll_distinct:
  "distinct xs \<Longrightarrow> x \<in> set xs \<Longrightarrow> length (removeAll x xs) = length xs - 1"
proof (induction xs)
  case Nil
  then show ?case by simp
next
  case (Cons a xs)
  show ?case
  proof (cases "a = x")
    case True
    then show ?thesis using Cons.prems by simp
  next
    case False
    then have m: "x \<in> set xs" using Cons.prems by simp
    then have "0 < length xs" by (rule length_pos_if_in_set)
    moreover have "length (removeAll x xs) = length xs - 1" using Cons m by simp
    ultimately show ?thesis using False by simp
  qed
qed

lemma consistent_disconnect:
  assumes co: "consistent st" and sd: "sockets st sid = Some sd"
  shows "consistent (next_state (on_disconnect st sid sd))"
proof -
  have co': "coherent (getRoom st) (sockets st) (adapter st)" using co by (simp add: consistent_def)
  show ?thesis
  proof (cases "data_roomId sd")
    case None
    then have "bound_room st sd = None" by (simp add: bound_room_def)
    moreover have "coherent (getRoom st) ((sockets st)(sid := None))
                     (\<lambda>r. removeAll sid (adapter st r))"
      using co' sd None by (rule coherent_disconnect_unbound)
    ultimately show ?thesis
      by (simp add: disconnect_effect consistent_def getRoom_socket_close_fun
          sockets_socket_close adapter_socket_close_fun)
  next
    case (Some rid)
    obtain room0 where g: "getRoom st rid = Inr (Some room0)"
      using coherent_bound_room [OF co' sd Some] .
    have rid: "rid \<noteq> []" using coherent_room(1) [OF co' g] .
    have b: "bound_room st sd = Some (rid, room0)" using Some g rid by (simp add: bound_room_Some)
    have mem: "sid \<in> set (adapter st rid)" using coherent_members [OF co'] sd Some by blast
    then have ne: "adapter st rid \<noteq> []" by auto
    let ?rem = "removeAll sid (adapter st rid)"
    let ?room1 = "stored (leave_update sid ?rem room0)"
    have len: "length ?rem = length (adapter st rid) - 1"
      using coherent_distinct [OF co'] mem by (rule length_removeAll_distinct)
    have c1: "membersCount ?room1 = Num (of_nat (length ?rem))"
    proof -
      have "membersCount room0 = Num (of_nat (length (adapter st rid)))"
        using coherent_room(3) [OF co' g] .
      then have "membersCount (leave_update sid ?rem room0) = Num (of_nat (length ?rem))"
        by (simp add: leave_update_def Let_def leave_count len)
      then show ?thesis by (simp add: stored_def num_or_def)
    qed
    have md0: "moderatorId room0 \<in> set (adapter st rid)" using coherent_room(5) [OF co' g ne] .
    have c2: "if ?rem = [] then moderatorId ?room1 = [] else moderatorId ?room1 \<in> set ?rem"
    proof (cases "moderatorId room0 = sid")
      case True
      then show ?thesis
        by (cases ?rem) (simp_all add: stored_def leave_update_def Let_def)
    next
      case False
      then have in_rem: "moderatorId room0 \<in> set ?rem" using md0 by simp
      have "?rem \<noteq> []"
      proof
        assume e: "?rem = []"
        show False using in_rem unfolding e by simp
      qed
      then show ?thesis using False md0
        by (simp add: stored_def leave_update_def Let_def)
    qed
    have "coherent ((getRoom st)(rid := Inr (Some ?room1))) ((sockets st)(sid := None))
            (\<lambda>r. removeAll sid (adapter st r))"
      using co' sd Some c1 c2 by (rule coherent_disconnect_bound)
    then show ?thesis
      by (simp add: disconnect_effect b consistent_def getRoom_setRoom_fun sockets_setRoom
          adapter_setRoom getRoom_socket_close_fun sockets_socket_close adapter_socket_close_fun)
  qed
qed

lemma consistent_dispatch:
  assumes co: "consistent st" and al: "allowed st sid ev"
  shows "consistent (next_state (dispatch st sid ev))"
proof (cases "ev = Connection")
  case True
  then show ?thesis using co al by (simp add: consistent_connection)
next
  case notc: False
  show ?thesis
  proof (cases "sockets st sid")
    case None
    then show ?thesis using co notc by (cases ev) (simp_all add: dispatch_effect)
  next
    case (Some sd)
    have same: "consistent (setRoom st rid room1)"
      if "bound_room st sd = Some (rid, room0)"
        and "membersCount room1 = membersCount room0" "moderatorId room1 = moderatorId room0"
      for rid room0 room1
      using co that by (auto simp: bound_room_Some intro: consistent_setRoom_same)
    show ?thesis
    proof (cases ev)
      case Connection
      then show ?thesis using notc by simp
    next
      case (Join_room ro nm rnd)
      then show ?thesis using co al Some by (simp add: dispatch_effect consistent_join_room)
    next
      case (Load_video vid)
      then show ?thesis using co Some same
        by (auto simp: dispatch_effect load_video_effect split: option.splits jsval.splits)
    next
      case (Play t)
      then show ?thesis using co Some same
        by (auto simp: dispatch_effect play_effect split: option.splits)
    next
      case (Pause t)
      then show ?thesis using co Some same
        by (auto simp: dispatch_effect pause_effect split: option.splits)
    next
      case (Seek t)
      then show ?thesis using co Some same
        by (auto simp: dispatch_effect seek_effect split: option.splits)
    next
      case (Chat x)
      then show ?thesis using co Some by (simp add: dispatch_effect)
    next
      case Request_sync
      then show ?thesis using co Some by (simp add: dispatch_effect)
    next
      case Disconnect
      then show ?thesis using co Some by (simp add: dispatch_effect consistent_disconnect)
    qed
  qed
qed

lemma consistent_run: "consistent st \<Longrightarrow> conforms st evs \<Longrightarrow> consistent (run st evs)"
proof (induction evs arbitrary: st)
  case Nil
  then show ?case by simp
next
  case (Cons x evs)
  obtain sid ev where x: "x = (sid, ev)" by (cases x)
  then show ?case using Cons by (simp add: consistent_dispatch)
qed

lemma conforms_append:
  "conforms st (xs @ ys) \<longleftrightarrow> conforms st xs \<and> conforms (run st xs) ys"
  by (induction xs arbitrary: st) auto

lemma consistent_invariant:
  assumes co: "consistent st" and g: "getRoom st r = Inr (Some room0)"
  shows "(\<exists>n :: int. membersCount room0 = Num (of_int n) \<and> 0 \<le> n) \<and>
         ((moderatorId room0 = []) = (membersCount room0 = Num 0)) \<and>
         (membersCount room0 \<noteq> Num 0 \<longrightarrow>
            (\<exists>sd. sockets st (moderatorId room0) = Some sd \<and> data_roomId sd = Some r))"
proof -
  have co': "coherent (getRoom st) (sockets st) (adapter st)" using co by (simp add: consistent_def)
  note rm = coherent_room [OF co' g]
  have cnt: "membersCount room0 = Num (of_nat (length (adapter st r)))" using rm(3) .
  have "membersCount room0 = Num (of_int (int (length (adapter st r)))) \<and>
        0 \<le> int (length (adapter st r))"
    using cnt by simp
  then have int_ex: "\<exists>n :: int. membersCount room0 = Num (of_int n) \<and> 0 \<le> n" by blast
  show ?thesis
  proof (cases "adapter st r = []")
    case True
    then show ?thesis using cnt rm(4) int_ex by simp
  next
    case False
    then have md: "moderatorId room0 \<in> set (adapter st r)" using rm(5) by simp
    then obtain sd where sd: "sockets st (moderatorId room0) = Some sd"
      "r = moderatorId room0 \<or> data_roomId sd = Some r"
      using coherent_members [OF co'] by blast
    then have "data_roomId sd = Some r" using rm(2) by auto
    moreover have "moderatorId room0 \<noteq> []" using coherent_member_id [OF co' md] .
    ultimately show ?thesis using cnt False sd(1) int_ex by simp
  qed
qed

lemma conforms_demo_pair: "conforms init demo_pair"
  by (simp add: demo_pair_def demo_alice_def allowed_def run_simps)

text \<open>
  C1: in every run the member count of a stored room is a non-negative integer. In a run
  that keeps the join discipline, the moderator is empty if and only if the count is 0,
  and when the count is not 0 the moderator is a connected socket bound to that room.
\<close>

theorem room_invariant:
  assumes "getRoom (run init evs) r = Inr (Some room0)"
  shows "(\<exists>n :: int. membersCount room0 = Num (of_int n) \<and> 0 \<le> n) \<and>
         (conforms init evs \<longrightarrow>
            ((moderatorId room0 = []) = (membersCount room0 = Num 0)) \<and>
            (membersCount room0 \<noteq> Num 0 \<longrightarrow>
               (\<exists>sd. sockets (run init evs) (moderatorId room0) = Some sd \<and>
                     data_roomId sd = Some r)))"
proof
  show "\<exists>n :: int. membersCount room0 = Num (of_int n) \<and> 0 \<le> n"
    using rooms_all_room [OF count_run [OF rooms_all_init] assms]
    by (simp add: natural_num_int)
  show "conforms init evs \<longrightarrow>
          ((moderatorId room0 = []) = (membersCount room0 = Num 0)) \<and>
          (membersCount room0 \<noteq> Num 0 \<longrightarrow>
             (\<exists>sd. sockets (run init evs) (moderatorId room0) = Some sd \<and>
                   data_roomId sd = Some r))"
  proof
    assume "conforms init evs"
    then have "consistent (run init evs)" using consistent_init by (intro consistent_run)
    from consistent_invariant [OF this assms]
    show "((moderatorId room0 = []) = (membersCount room0 = Num 0)) \<and>
          (membersCount room0 \<noteq> Num 0 \<longrightarrow>
             (\<exists>sd. sockets (run init evs) (moderatorId room0) = Some sd \<and>
                   data_roomId sd = Some r))"
      by blast
  qed
qed

text \<open>Alice and Bob in r1: two members, Alice the moderator.\<close>

theorem room_invariant_witness:
  "getRoom (run init demo_pair) ''r1'' =
     Inr (Some \<lparr> videoId = [], time = Num 0, playing = False, membersCount = Num 2,
                 moderatorId = ''A'', queue = [] \<rparr>) \<and>
   conforms init demo_pair \<and>
   (\<exists>sd. sockets (run init demo_pair) ''A'' = Some sd \<and> data_roomId sd = Some ''r1'')"
  using room_invariant [OF demo_pair_room] conforms_demo_pair demo_pair_room
  by simp

text \<open>
  Alice joins r1 twice and disconnects: the room is left with one member counted and no
  moderator, and the only socket that was ever in it is gone.
\<close>

theorem invariant_counterexample:
  "getRoom (run init (demo_rejoin @ [(''A'', Disconnect)])) ''r1'' =
     Inr (Some \<lparr> videoId = [], time = Num 0, playing = False, membersCount = Num 1,
                 moderatorId = [], queue = [] \<rparr>) \<and>
   sockets (run init (demo_rejoin @ [(''A'', Disconnect)])) ''A'' = None"
  using demo_rejoin_leave_room demo_rejoin_leave_socket
  by (simp add: run_snoc)

text \<open>
  The second condition of the discipline is needed as well: socket.io keeps Bob's socket
  in the room named by its id, so when Alice leaves that room Bob is made its moderator
  although the room counts no member.
\<close>

lemma own_room_example:
  "getRoom (run init demo_own_room) ''B'' =
     Inr (Some \<lparr> videoId = [], time = Num 0, playing = False, membersCount = Num 0,
                 moderatorId = ''B'', queue = [] \<rparr>)"
  by (simp add: demo_own_room_def run_simps)

text \<open>
  C4: in a run that keeps the join discipline, when the socket named as a room's
  moderator disconnects and the room still counts a member, the new moderator is not the
  socket that left and not empty: it is a connected socket bound to that room.
\<close>

theorem moderator_reelected:
  assumes "conforms init evs"
    and "getRoom (run init evs) r = Inr (Some room0)" and "moderatorId room0 = sid"
    and "getRoom (next_state (dispatch (run init evs) sid Disconnect)) r = Inr (Some room1)"
    and "membersCount room1 \<noteq> Num 0"
  shows "moderatorId room1 \<noteq> sid \<and> moderatorId room1 \<noteq> [] \<and>
         (\<exists>sd1. sockets (next_state (dispatch (run init evs) sid Disconnect)) (moderatorId room1) =
                  Some sd1 \<and> data_roomId sd1 = Some r)"
proof -
  let ?st = "run init evs"
  let ?st' = "next_state (dispatch ?st sid Disconnect)"
  have "consistent ?st" using consistent_init assms(1) by (rule consistent_run)
  then have "consistent ?st'" by (rule consistent_dispatch) (simp add: allowed_def)
  from consistent_invariant [OF this assms(4)] assms(5)
  have m: "moderatorId room1 \<noteq> []"
    and s: "\<exists>sd1. sockets ?st' (moderatorId room1) = Some sd1 \<and> data_roomId sd1 = Some r"
    by auto
  have "sockets ?st' sid = None" by (simp add: dispatch_sockets)
  then have "moderatorId room1 \<noteq> sid" using s by auto
  then show ?thesis using m s by blast
qed

text \<open>Alice, moderator of r1, leaves Bob behind: Bob becomes the moderator.\<close>

theorem moderator_reelected_witness:
  "conforms init demo_pair \<and>
   getRoom (run init demo_pair) ''r1'' =
     Inr (Some \<lparr> videoId = [], time = Num 0, playing = False, membersCount = Num 2,
                 moderatorId = ''A'', queue = [] \<rparr>) \<and>
   getRoom (next_state (dispatch (run init demo_pair) ''A'' Disconnect)) ''r1'' =
     Inr (Some \<lparr> videoId = [], time = Num 0, playing = False, membersCount = Num 1,
                 moderatorId = ''B'', queue = [] \<rparr>) \<and>
   (\<exists>sd1. sockets (next_state (dispatch (run init demo_pair) ''A'' Disconnect)) ''B'' = Some sd1 \<and>
           data_roomId sd1 = Some ''r1'')"
  using moderator_reelected [OF conforms_demo_pair demo_pair_room _ demo_pair_leave_room]
    conforms_demo_pair demo_pair_room demo_pair_leave_room
  by simp

text \<open>
  Alice joined r1 twice, so the room counts two members. When she disconnects, one
  member is still counted, but no socket is left and the moderator becomes empty.
\<close>

theorem moderator_lost_counterexample:
  "sockets (run init demo_rejoin) ''A'' =
     Some \<lparr> data_name = Some ''Alice'', data_roomId = Some ''r1'' \<rparr> \<and>
   getRoom (run init demo_rejoin) ''r1'' =
     Inr (Some \<lparr> videoId = [], time = Num 0, playing = False, membersCount = Num 2,
                 moderatorId = ''A'', queue = [] \<rparr>) \<and>
   getRoom (next_state (dispatch (run init demo_rejoin) ''A'' Disconnect)) ''r1'' =
     Inr (Some \<lparr> videoId = [], time = Num 0, playing = False, membersCount = Num 1,
                 moderatorId = [], queue = [] \<rparr>)"
  using demo_rejoin_leave_room demo_rejoin_room demo_rejoin_socket
  by simp

section \<open>The store encoding\<close>



end
